theory Spec2Isabelle
  imports Main "HOL-Library.Log_Nat" "HOL-Library.AList" "HOL-Library.Multiset"
begin

section \<open>JavaScript numbers\<close>

text \<open>
  Every amount in the program is a JavaScript \<^verbatim>\<open>number\<close>, an IEEE-754 binary64 value. A
  finite value is represented by the rational it denotes; the two zeros are one value
  (they are equal under \<^verbatim>\<open>===\<close>, and the program never divides by a zero). Each arithmetic
  operation computes the exact rational result and rounds it to the nearest binary64
  value, ties to the even significand, as the language prescribes.

  \<open>Fin q\<close> stands for a number only when \<open>q\<close> is a binary64 value, that is
  \<open>double q = Fin q\<close>. The operations return such values, and every concrete input
  below is one (an integer, a dyadic fraction, or the \<open>double\<close> of a decimal literal).
\<close>

datatype number = NaN | PosInfinity | NegInfinity | Fin rat

text \<open>Nearest integer, ties to the even one.\<close>

definition rne :: "rat \<Rightarrow> int" where
  "rne q = (let f = \<lfloor>q\<rfloor>; d = q - of_int f in
     if d < 1 / 2 then f else if 1 / 2 < d then f + 1 else if even f then f else f + 1)"

text \<open>For \<open>0 < q\<close>, the exponent \<open>e\<close> with \<open>2 powi e \<le> q < 2 powi (e + 1)\<close>.\<close>

definition ilog2 :: "rat \<Rightarrow> int" where
  "ilog2 q = (let (a, b) = quotient_of q; d = bitlen a - bitlen b in
     if 2 powi d \<le> q then d else d - 1)"

text \<open>
  The binary64 value nearest to a rational: 53 significant bits, the least exponent
  \<open>- 1022\<close> (below it the spacing stays \<open>2 powi - 1074\<close>), and overflow to an infinity
  when the rounded magnitude reaches \<open>2 ^ 1024\<close>. A decimal literal of the source is the
  \<open>double\<close> of its decimal value.
\<close>

definition double :: "rat \<Rightarrow> number" where
  "double q = (if q = 0 then Fin 0 else
     let e = max (ilog2 \<bar>q\<bar>) (- 1022);
         ulp = 2 powi (e - 52);
         r = of_int (rne (\<bar>q\<bar> / ulp)) * ulp
     in if 2 ^ 1024 \<le> r then (if 0 < q then PosInfinity else NegInfinity)
        else Fin (sgn q * r))"

fun num_neg :: "number \<Rightarrow> number" where
  "num_neg NaN = NaN"
| "num_neg PosInfinity = NegInfinity"
| "num_neg NegInfinity = PosInfinity"
| "num_neg (Fin a) = Fin (- a)"

fun num_add :: "number \<Rightarrow> number \<Rightarrow> number" where
  "num_add (Fin a) (Fin b) = double (a + b)"
| "num_add (Fin a) NaN = NaN"
| "num_add (Fin a) PosInfinity = PosInfinity"
| "num_add (Fin a) NegInfinity = NegInfinity"
| "num_add NaN y = NaN"
| "num_add PosInfinity y = (if y = NaN \<or> y = NegInfinity then NaN else PosInfinity)"
| "num_add NegInfinity y = (if y = NaN \<or> y = PosInfinity then NaN else NegInfinity)"

definition num_sub :: "number \<Rightarrow> number \<Rightarrow> number" where
  "num_sub x y = num_add x (num_neg y)"

text \<open>The sign of a number other than \<open>NaN\<close>: \<open>- 1\<close>, \<open>0\<close> or \<open>1\<close>.\<close>

fun num_sgn :: "number \<Rightarrow> rat" where
  "num_sgn (Fin a) = sgn a"
| "num_sgn PosInfinity = 1"
| "num_sgn NegInfinity = - 1"
| "num_sgn NaN = 0"

definition signed_infinity :: "rat \<Rightarrow> number" where
  "signed_infinity s = (if s = 0 then NaN else if 0 < s then PosInfinity else NegInfinity)"

fun Number_isFinite :: "number \<Rightarrow> bool" where
  "Number_isFinite (Fin a) = True"
| "Number_isFinite NaN = False"
| "Number_isFinite PosInfinity = False"
| "Number_isFinite NegInfinity = False"

text \<open>
  A product with an infinite factor is \<open>NaN\<close> when the other factor is zero, and the
  infinity of the product's sign otherwise.
\<close>

definition num_mul :: "number \<Rightarrow> number \<Rightarrow> number" where
  "num_mul x y =
     (case (x, y) of
        (Fin a, Fin b) \<Rightarrow> double (a * b)
      | _ \<Rightarrow> if x = NaN \<or> y = NaN then NaN else signed_infinity (num_sgn x * num_sgn y))"

text \<open>
  Division. A zero divisor is taken as the positive zero: the only divisors in the
  program are the literal 100 and a non-zero array length.
\<close>

definition num_div :: "number \<Rightarrow> number \<Rightarrow> number" where
  "num_div x y =
     (case (x, y) of
        (Fin a, Fin b) \<Rightarrow> if b = 0 then signed_infinity a else double (a / b)
      | _ \<Rightarrow> if x = NaN \<or> y = NaN then NaN
             else if Number_isFinite x then Fin 0
             else if Number_isFinite y
               then signed_infinity (num_sgn x * (if num_sgn y < 0 then - 1 else 1))
             else NaN)"

text \<open>Comparisons: every comparison with \<open>NaN\<close> is false.\<close>

definition num_less :: "number \<Rightarrow> number \<Rightarrow> bool" where
  "num_less x y =
     (case (x, y) of
        (Fin a, Fin b) \<Rightarrow> a < b
      | _ \<Rightarrow> x \<noteq> NaN \<and> y \<noteq> NaN \<and> x \<noteq> PosInfinity \<and> y \<noteq> NegInfinity \<and> x \<noteq> y)"

definition num_eq :: "number \<Rightarrow> number \<Rightarrow> bool" where
  "num_eq x y = (x \<noteq> NaN \<and> x = y)"

definition num_le :: "number \<Rightarrow> number \<Rightarrow> bool" where
  "num_le x y = (num_less x y \<or> num_eq x y)"

definition num_gt :: "number \<Rightarrow> number \<Rightarrow> bool" where
  "num_gt x y = num_less y x"

text \<open>
  \<^verbatim>\<open>Math.round\<close> rounds to the nearest integer and a tie towards positive infinity;
  the result of \<^verbatim>\<open>Math.round\<close> and \<^verbatim>\<open>Math.floor\<close> on a binary64 value is again one.
\<close>

fun Math_round :: "number \<Rightarrow> number" where
  "Math_round (Fin a) = Fin (of_int \<lfloor>a + 1 / 2\<rfloor>)"
| "Math_round NaN = NaN"
| "Math_round PosInfinity = PosInfinity"
| "Math_round NegInfinity = NegInfinity"

fun Math_floor :: "number \<Rightarrow> number" where
  "Math_floor (Fin a) = Fin (of_int \<lfloor>a\<rfloor>)"
| "Math_floor NaN = NaN"
| "Math_floor PosInfinity = PosInfinity"
| "Math_floor NegInfinity = NegInfinity"

fun Math_abs :: "number \<Rightarrow> number" where
  "Math_abs (Fin a) = Fin \<bar>a\<bar>"
| "Math_abs NaN = NaN"
| "Math_abs PosInfinity = PosInfinity"
| "Math_abs NegInfinity = PosInfinity"

definition Math_max :: "number \<Rightarrow> number \<Rightarrow> number" where
  "Math_max x y = (if x = NaN \<or> y = NaN then NaN else if num_less x y then y else x)"

section \<open>Domain types\<close>

text \<open>
  The fields that the functions below read. \<open>paidBy\<close> is \<open>None\<close> when the expense
  carries no payer object (the source reads it with \<^verbatim>\<open>?.\<close>).
\<close>

record User =
  user_id :: string
  name :: string

record Split =
  userId :: string
  amount :: number

datatype SplitType = Equal | Custom

record Expense =
  exp_amount :: number
  paidBy :: "User option"
  splitType :: SplitType
  splits :: "Split list"

type_synonym Balances = "string \<rightharpoonup> number"

section \<open>Expense validation\<close>

text \<open>
  A validation result is \<^verbatim>\<open>{ valid: true }\<close> or \<^verbatim>\<open>{ valid: false, error }\<close>. The errors
  are the five messages of the source; the split-total message embeds the two sums.
\<close>

datatype error =
    PleaseEnterAnAmount
  | AmountMustBeGreaterThanZero
  | AmountMustBeAValidNumber
  | SplitTotalMustEqual number number
  | SplitAmountsCannotBeNegative

datatype validation = Valid | Invalid error

definition FLOAT_EPSILON :: number where
  "FLOAT_EPSILON = double (1 / 100)"

definition validateAmount :: "number \<Rightarrow> validation" where
  "validateAmount a =
     (if num_le a (Fin 0) then Invalid AmountMustBeGreaterThanZero
      else if \<not> Number_isFinite a then Invalid AmountMustBeAValidNumber
      else Valid)"

text \<open>
  The parameter is declared a \<^verbatim>\<open>number\<close>, so of \<^verbatim>\<open>amount === 0 || amount === undefined ||
  amount === null\<close> the first test is the one that can hold. The optional title is not read.
\<close>

definition validateNotEmpty :: "number \<Rightarrow> validation" where
  "validateNotEmpty a = (if num_eq a (Fin 0) then Invalid PleaseEnterAnAmount else Valid)"

definition validateSplitTotals :: "number \<Rightarrow> Split list \<Rightarrow> validation" where
  "validateSplitTotals a ss =
     (let sum = foldl (\<lambda>acc s. num_add acc (amount s)) (Fin 0) ss;
          diff = Math_abs (num_sub sum a)
      in if num_gt diff FLOAT_EPSILON then Invalid (SplitTotalMustEqual sum a)
         else if list_ex (\<lambda>s. num_less (amount s) (Fin 0)) ss
              then Invalid SplitAmountsCannotBeNegative
         else Valid)"

definition validateExpenseInput :: "number \<Rightarrow> SplitType \<Rightarrow> Split list \<Rightarrow> validation" where
  "validateExpenseInput a st ss =
     (let notEmpty = validateNotEmpty a in
      if notEmpty \<noteq> Valid then notEmpty
      else let amountOk = validateAmount a in
      if amountOk \<noteq> Valid then amountOk
      else if st = Custom
        then (let splitsOk = validateSplitTotals a ss in
              if splitsOk \<noteq> Valid then splitsOk else Valid)
      else Valid)"

section \<open>Balance calculation\<close>

definition round2 :: "number \<Rightarrow> number" where
  "round2 n = num_div (Math_round (num_mul n (Fin 100))) (Fin 100)"

definition buildEqualSplits :: "number \<Rightarrow> string list \<Rightarrow> Split list" where
  "buildEqualSplits a participantIds =
     (let n = length participantIds in
      if n = 0 then []
      else
        let totalCents = Math_round (num_mul a (Fin 100));
            shareCents = Math_floor (num_div totalCents (Fin (of_nat n)));
            remainder = num_sub totalCents (num_mul shareCents (Fin (of_nat n)))
        in map (\<lambda>(i, u).
                  let cents = num_add shareCents
                                (if num_less (Fin (of_nat i)) remainder then Fin 1 else Fin 0)
                  in \<lparr>userId = u, amount = num_div cents (Fin 100)\<rparr>)
               (enumerate 0 participantIds))"

text \<open>\<^verbatim>\<open>expense.paidBy?.id\<close>, with \<open>None\<close> for a missing payer and for the empty (falsy) id.\<close>

definition payerId :: "Expense \<Rightarrow> string option" where
  "payerId e = (case paidBy e of None \<Rightarrow> None
                | Some u \<Rightarrow> if user_id u = [] then None else Some (user_id u))"

subsection \<open>Plain objects used as maps\<close>

text \<open>
  \<open>balances\<close>, \<open>giveMap\<close> and \<open>getMap\<close> are plain objects \<^verbatim>\<open>{}\<close> indexed by user ids. Such an
  object has its own properties, which here always hold numbers, and behind them the
  properties of \<^verbatim>\<open>Object.prototype\<close>: eleven functions and the accessor \<^verbatim>\<open>__proto__\<close>.
\<close>

definition Object_prototype :: "string list" where
  "Object_prototype =
     [''constructor'', ''__defineGetter__'', ''__defineSetter__'', ''hasOwnProperty'',
      ''__lookupGetter__'', ''__lookupSetter__'', ''isPrototypeOf'', ''propertyIsEnumerable'',
      ''toString'', ''valueOf'', ''__proto__'', ''toLocaleString'']"

text \<open>
  The values an expression \<^verbatim>\<open>(obj[k] ?? 0) + amount\<close> can pass through: \<open>Obj\<close> is a
  function or object inherited from the prototype, and \<open>Str\<close> the string that \<^verbatim>\<open>+\<close> makes
  of such a value and a number (the text of the function or \<^verbatim>\<open>[object Object]\<close>, followed
  by the digits of the number), which is not a numeric literal.
\<close>

datatype jsvalue = Undefined | Num number | Obj | Str

text \<open>\<^verbatim>\<open>obj[k]\<close>, given the own property of \<open>obj\<close> at \<open>k\<close> if there is one.\<close>

definition readProp :: "string \<Rightarrow> number option \<Rightarrow> jsvalue" where
  "readProp k own =
     (case own of Some v \<Rightarrow> Num v
      | None \<Rightarrow> if k \<in> set Object_prototype then Obj else Undefined)"

text \<open>\<^verbatim>\<open>v ?? 0\<close>: only \<^verbatim>\<open>undefined\<close> (and \<^verbatim>\<open>null\<close>) give way to 0.\<close>

definition coalesce0 :: "jsvalue \<Rightarrow> jsvalue" where
  "coalesce0 v = (if v = Undefined then Num (Fin 0) else v)"

text \<open>
  Conversion to a number, which \<^verbatim>\<open>-\<close> and \<^verbatim>\<open>*\<close> apply to their operands: a function,
  an object, \<^verbatim>\<open>undefined\<close> and a string that is no numeric literal all give \<open>NaN\<close>.
\<close>

fun toNumber :: "jsvalue \<Rightarrow> number" where
  "toNumber (Num n) = n"
| "toNumber Undefined = NaN"
| "toNumber Obj = NaN"
| "toNumber Str = NaN"

text \<open>\<^verbatim>\<open>v + b\<close> for a number \<open>b\<close>: addition of numbers, concatenation otherwise.\<close>

fun js_add :: "jsvalue \<Rightarrow> number \<Rightarrow> jsvalue" where
  "js_add (Num a) b = Num (num_add a b)"
| "js_add Undefined b = Num NaN"
| "js_add Obj b = Str"
| "js_add Str b = Str"

definition js_sub :: "jsvalue \<Rightarrow> number \<Rightarrow> jsvalue" where
  "js_sub v b = Num (num_sub (toNumber v) b)"

text \<open>
  \<^verbatim>\<open>obj[k] = v\<close> for a number \<open>v\<close>. The key \<^verbatim>\<open>__proto__\<close> reaches the inherited setter, which
  ignores a value that is not an object; every other key becomes or stays an own property.
\<close>

definition setProp :: "Balances \<Rightarrow> string \<Rightarrow> number \<Rightarrow> Balances" where
  "setProp obj k v = (if k = ''__proto__'' then obj else obj(k \<mapsto> v))"

subsection \<open>The functions\<close>

text \<open>
  The two \<^verbatim>\<open>forEach\<close> callbacks of \<open>calculateBalances\<close>, the inner one first: \<open>owe\<close> handles
  one split and \<open>addExpense\<close> one expense, each returning the updated map.
\<close>

definition owe :: "Balances \<Rightarrow> Split \<Rightarrow> Balances" where
  "owe balances split =
     (let oweAmount = round2 (amount split) in
      setProp balances (userId split)
        (round2 (toNumber (js_sub (coalesce0 (readProp (userId split) (balances (userId split))))
                                  oweAmount))))"

definition addExpense :: "Balances \<Rightarrow> Expense \<Rightarrow> Balances" where
  "addExpense balances expense =
     (case payerId expense of None \<Rightarrow> balances
      | Some p \<Rightarrow>
          let a = round2 (exp_amount expense);
              balances1 = setProp balances p
                (round2 (toNumber (js_add (coalesce0 (readProp p (balances p))) a)))
          in foldl owe balances1 (splits expense))"

definition calculateBalances :: "Expense list \<Rightarrow> string list \<Rightarrow> Balances" where
  "calculateBalances expenses memberIds =
     foldl addExpense (foldl (\<lambda>balances i. setProp balances i (Fin 0)) Map.empty memberIds)
       expenses"

section \<open>Settlement breakdown\<close>

text \<open>
  The accumulators of the pass. The own properties of \<open>giveMap\<close> and \<open>getMap\<close> are kept as
  association lists in the order of their creation, since \<^verbatim>\<open>Object.entries\<close> depends on it.
\<close>

record Pass =
  owed :: number
  paid :: number
  giveMap :: "(string \<times> number) list"
  getMap :: "(string \<times> number) list"

record Breakdown =
  totalOwed :: number
  totalPaid :: number
  getBack :: number
  youGive :: "(string \<times> number) list"
  youGet :: "(string \<times> number) list"

text \<open>
  \<open>bump m k amt\<close> is \<^verbatim>\<open>m[k] = round2((m[k] ?? 0) + amt)\<close>, with the reading and the writing
  of a property as above.
\<close>

definition bump :: "(string \<times> number) list \<Rightarrow> string \<Rightarrow> number \<Rightarrow> (string \<times> number) list" where
  "bump m k amt =
     (let v = round2 (toNumber (js_add (coalesce0 (readProp k (map_of m k))) amt)) in
      if k = ''__proto__'' then m else AList.update k v m)"

text \<open>
  \<^verbatim>\<open>Object.entries\<close> lists the own properties whose key is an array index first, in
  ascending numeric order, and then the other keys in the order of their creation. An
  array index is the canonical decimal string of an integer from 0 to \<open>2 ^ 32 - 2\<close>.
\<close>

definition digit :: "char \<Rightarrow> int option" where
  "digit c = (let n = (of_char c :: int) in if 48 \<le> n \<and> n \<le> 57 then Some (n - 48) else None)"

fun decimal :: "int \<Rightarrow> string \<Rightarrow> int option" where
  "decimal n [] = Some n"
| "decimal n (c # cs) = (case digit c of None \<Rightarrow> None | Some d \<Rightarrow> decimal (10 * n + d) cs)"

definition arrayIndex :: "string \<Rightarrow> int option" where
  "arrayIndex k =
     (if k = [] \<or> (hd k = CHR ''0'' \<and> k \<noteq> ''0'') then None
      else case decimal 0 k of None \<Rightarrow> None
           | Some n \<Rightarrow> if n < 4294967295 then Some n else None)"

definition Object_entries :: "(string \<times> number) list \<Rightarrow> (string \<times> number) list" where
  "Object_entries m =
     map snd (sort_key fst
       (concat (map (\<lambda>kv. case arrayIndex (fst kv) of None \<Rightarrow> [] | Some n \<Rightarrow> [(n, kv)]) m)))
     @ filter (\<lambda>kv. arrayIndex (fst kv) = None) m"

text \<open>
  \<open>visitSplit\<close> and \<open>visitExpense\<close> are the two \<^verbatim>\<open>forEach\<close> callbacks, and \<open>entries\<close> the
  filter and map over \<^verbatim>\<open>Object.entries\<close>.
\<close>

definition visitSplit :: "string \<Rightarrow> string \<Rightarrow> Pass \<Rightarrow> Split \<Rightarrow> Pass" where
  "visitSplit currentUserId p st split =
     (let amt = round2 (amount split);
          st1 = (if userId split = currentUserId
                 then (let st' = st\<lparr>owed := num_add (owed st) amt\<rparr> in
                       if p \<noteq> currentUserId then st'\<lparr>giveMap := bump (giveMap st') p amt\<rparr>
                       else st')
                 else st)
      in if p = currentUserId \<and> userId split \<noteq> currentUserId
         then st1\<lparr>getMap := bump (getMap st1) (userId split) amt\<rparr>
         else st1)"

definition visitExpense :: "string \<Rightarrow> Pass \<Rightarrow> Expense \<Rightarrow> Pass" where
  "visitExpense currentUserId st expense =
     (case payerId expense of None \<Rightarrow> st
      | Some p \<Rightarrow>
          let st1 = foldl (visitSplit currentUserId p) st (splits expense) in
          if p = currentUserId
          then st1\<lparr>paid := num_add (paid st1) (round2 (exp_amount expense))\<rparr>
          else st1)"

definition entries :: "(string \<times> number) list \<Rightarrow> (string \<times> number) list" where
  "entries m =
     map (\<lambda>(u, a). (u, round2 a)) (filter (\<lambda>(u, a). num_gt a (Fin 0)) (Object_entries m))"

definition getSettlementBreakdown :: "Expense list \<Rightarrow> string \<Rightarrow> Breakdown" where
  "getSettlementBreakdown expenses currentUserId =
     (let st = foldl (visitExpense currentUserId)
                 \<lparr>owed = Fin 0, paid = Fin 0, giveMap = [], getMap = []\<rparr> expenses;
          tOwed = round2 (owed st);
          tPaid = round2 (paid st)
      in \<lparr>totalOwed = tOwed, totalPaid = tPaid,
          getBack = round2 (Math_max (Fin 0) (num_sub tPaid tOwed)),
          youGive = entries (giveMap st), youGet = entries (getMap st)\<rparr>)"

section \<open>Vocabulary of the claims\<close>

text \<open>The balance a map holds at a key, 0 where it has no entry.\<close>

definition orZero :: "number option \<Rightarrow> number" where
  "orZero v = (case v of None \<Rightarrow> Fin 0 | Some x \<Rightarrow> x)"

text \<open>The user ids an expense touches: none when it has no resolvable payer.\<close>

definition touched :: "Expense \<Rightarrow> string set" where
  "touched e = (case payerId e of None \<Rightarrow> {}
                | Some p \<Rightarrow> insert p (userId ` set (splits e)))"

text \<open>
  The splits whose member is the viewer, over the expenses with a resolvable payer, in
  the order the pass visits them.
\<close>

definition viewerSplits :: "Expense list \<Rightarrow> string \<Rightarrow> Split list" where
  "viewerSplits expenses v =
     concat (map (\<lambda>e. case payerId e of None \<Rightarrow> []
                       | Some p \<Rightarrow> filter (\<lambda>s. userId s = v) (splits e)) expenses)"

text \<open>
  The same, restricted to the expenses someone other than the viewer paid: the splits
  that claim C1 takes \<open>totalOwed\<close> to sum.
\<close>

definition splitsOwedToOthers :: "Expense list \<Rightarrow> string \<Rightarrow> Split list" where
  "splitsOwedToOthers expenses v =
     concat (map (\<lambda>e. case payerId e of None \<Rightarrow> []
                       | Some p \<Rightarrow> if p = v then [] else filter (\<lambda>s. userId s = v) (splits e))
                 expenses)"

definition sumRounded :: "Split list \<Rightarrow> number" where
  "sumRounded ss = foldl (\<lambda>t s. num_add t (round2 (amount s))) (Fin 0) ss"

text \<open>
  Rounding to the nearest integer with ties away from zero, and \<open>round2\<close> as claim C4
  words it.
\<close>

fun round_half_away :: "number \<Rightarrow> number" where
  "round_half_away (Fin a) = Fin (of_int (if a < 0 then - \<lfloor>- a + 1 / 2\<rfloor> else \<lfloor>a + 1 / 2\<rfloor>))"
| "round_half_away NaN = NaN"
| "round_half_away PosInfinity = PosInfinity"
| "round_half_away NegInfinity = NegInfinity"

definition round2_ties_away :: "number \<Rightarrow> number" where
  "round2_ties_away n = num_div (round_half_away (num_mul n (Fin 100))) (Fin 100)"

text \<open>
  An amount in whole cents, as the program scales it: \<^verbatim>\<open>Math.round(x * 100)\<close>, read as an
  integer (0 when it is not finite), and the number that a count of cents stands for.
\<close>

definition cents :: "number \<Rightarrow> int" where
  "cents x = (case Math_round (num_mul x (Fin 100)) of
                Fin k \<Rightarrow> \<lfloor>k\<rfloor> | NaN \<Rightarrow> 0 | PosInfinity \<Rightarrow> 0 | NegInfinity \<Rightarrow> 0)"

definition fromCents :: "int \<Rightarrow> number" where
  "fromCents k = num_div (Fin (of_int k)) (Fin 100)"

text \<open>
  The amounts \<open>calculateBalances\<close> reads: of each expense with a resolvable payer, its
  amount and the amounts of its splits. \<open>paidExpenses\<close> are those expenses.
\<close>

definition amountsRead :: "Expense list \<Rightarrow> number list" where
  "amountsRead expenses =
     concat (map (\<lambda>e. case payerId e of None \<Rightarrow> []
                       | Some p \<Rightarrow> exp_amount e # map amount (splits e)) expenses)"

definition paidExpenses :: "Expense list \<Rightarrow> Expense list" where
  "paidExpenses expenses = filter (\<lambda>e. payerId e \<noteq> None) expenses"

text \<open>
  Claim C3 in its own words: the sum of the values of a balance map, over a list of its
  keys, and the difference of the rounded sums of all expense amounts and all split amounts.
\<close>

definition valuesSum :: "Balances \<Rightarrow> string list \<Rightarrow> number" where
  "valuesSum balances keys = foldl (\<lambda>t k. num_add t (orZero (balances k))) (Fin 0) keys"

definition claimedBalanceSum :: "Expense list \<Rightarrow> number" where
  "claimedBalanceSum expenses =
     num_sub (round2 (foldl num_add (Fin 0) (map exp_amount expenses)))
             (round2 (foldl num_add (Fin 0) (map amount (concat (map splits expenses)))))"

text \<open>
  The balance calculation is one fold over postings: each expense with a resolvable
  payer credits its payer with the amount, then debits the member of each split. A
  posting changes the property at its key only, by \<open>step\<close>. \<open>postingsAt k\<close> are the
  postings at the key \<open>k\<close>, and \<open>netCents\<close> and \<open>net\<close> the balance in cents that they
  add up to.
\<close>

definition postings :: "Expense \<Rightarrow> (string \<times> bool \<times> number) list" where
  "postings e = (case payerId e of None \<Rightarrow> []
                 | Some p \<Rightarrow> (p, True, exp_amount e) # map (\<lambda>s. (userId s, False, amount s)) (splits e))"

definition step :: "string \<Rightarrow> number option \<Rightarrow> bool \<times> number \<Rightarrow> number option" where
  "step k own = (\<lambda>(credit, x).
     if k = ''__proto__'' then own
     else Some (round2 (toNumber ((if credit then js_add else js_sub)
                                    (coalesce0 (readProp k own)) (round2 x)))))"

definition post :: "Balances \<Rightarrow> string \<times> bool \<times> number \<Rightarrow> Balances" where
  "post b p = b(fst p := step (fst p) (b (fst p)) (snd p))"

definition postingsAt :: "string \<Rightarrow> Expense list \<Rightarrow> (bool \<times> number) list" where
  "postingsAt k expenses = map snd (filter (\<lambda>p. fst p = k) (concat (map postings expenses)))"

definition netCents :: "(bool \<times> number) list \<Rightarrow> int" where
  "netCents qs = (\<Sum>(credit, x)\<leftarrow>qs. if credit then cents x else - cents x)"

definition signedCents :: "string \<times> bool \<times> number \<Rightarrow> int" where
  "signedCents = (\<lambda>(k, credit, x). if credit then cents x else - cents x)"

definition net :: "(string \<times> bool \<times> number) list \<Rightarrow> string \<Rightarrow> int" where
  "net ps k = (\<Sum>p\<leftarrow>ps. if fst p = k then signedCents p else 0)"

section \<open>Rounding to binary64\<close>

lemma rne_bounds: "\<bar>of_int (rne q) - q\<bar> \<le> 1 / 2"
proof -
  have "of_int \<lfloor>q\<rfloor> \<le> q" "q < of_int \<lfloor>q\<rfloor> + 1" by linarith+
  then show ?thesis by (auto simp: rne_def Let_def)
qed

lemma rne_unique:
  assumes "\<bar>q - of_int m\<bar> < 1 / 2"
  shows "rne q = m"
proof -
  have "\<bar>(of_int (rne q) :: rat) - of_int m\<bar> < 1"
    using rne_bounds [of q] assms by linarith
  then have "\<bar>(of_int (rne q - m) :: rat)\<bar> < 1" by simp
  then have "\<bar>rne q - m\<bar> < 1" by (metis of_int_abs of_int_less_1_iff)
  then show ?thesis by linarith
qed

lemma ilog2_bounds:
  assumes "0 < q"
  shows "2 powi (ilog2 q) \<le> q \<and> q < 2 powi (ilog2 q + 1)"
proof -
  obtain a b where ab: "quotient_of q = (a, b)" by (cases "quotient_of q")
  have b: "0 < b" using ab by (rule quotient_of_denom_pos)
  have q: "q = of_int a / of_int b" using ab by (rule quotient_of_div)
  have a: "0 < a" using assms b q by (simp add: zero_less_divide_iff)
  define la where "la = bitlen a"
  define lb where "lb = bitlen b"
  have la1: "1 \<le> la" and lb1: "1 \<le> lb"
    using a b by (simp_all add: la_def lb_def bitlen_alt_def)
  have pw: "(2::rat) powi k = of_int (2 ^ nat k)" if "0 \<le> k" for k
    using that by (simp add: power_int_def)
  have A: "(2::rat) powi (la - 1) \<le> of_int a" "of_int a < (2::rat) powi la"
    using bitlen_bounds [OF a] la1 unfolding la_def [symmetric]
    by (simp_all only: pw of_int_le_iff of_int_less_iff)
  have B: "(2::rat) powi (lb - 1) \<le> of_int b" "of_int b < (2::rat) powi lb"
    using bitlen_bounds [OF b] lb1 unfolding lb_def [symmetric]
    by (simp_all only: pw of_int_le_iff of_int_less_iff)
  have bpos: "(0::rat) < of_int b" using b by simp
  have d: "ilog2 q = (if 2 powi (la - lb) \<le> q then la - lb else la - lb - 1)"
    by (simp add: ilog2_def ab la_def lb_def Let_def)
  have up: "q < 2 powi (la - lb + 1)"
  proof -
    have "of_int a * 2 powi (lb - 1) < (2::rat) powi la * of_int b"
      using A(2) B(1) a by (intro mult_less_le_imp_less) simp_all
    then have "q < 2 powi la / 2 powi (lb - 1)"
      unfolding q using bpos by (simp add: field_simps)
    also have "\<dots> = 2 powi (la - (lb - 1))"
      by (simp add: power_int_diff)
    also have "la - (lb - 1) = la - lb + 1" by simp
    finally show ?thesis .
  qed
  have lo: "2 powi (la - lb - 1) \<le> q"
  proof -
    have "(2::rat) powi (la - 1) * of_int b \<le> of_int a * 2 powi lb"
      using A(1) B(2) a b by (intro mult_mono) simp_all
    then have "2 powi (la - 1) / 2 powi lb \<le> q"
      unfolding q using bpos by (simp add: field_simps)
    moreover have "(2::rat) powi (la - 1) / 2 powi lb = 2 powi (la - 1 - lb)"
      by (simp add: power_int_diff)
    moreover have "la - 1 - lb = la - lb - 1" by simp
    ultimately show ?thesis by simp
  qed
  show ?thesis
  proof (cases "2 powi (la - lb) \<le> q")
    case True
    with d up show ?thesis by simp
  next
    case False
    with d lo show ?thesis by simp
  qed
qed

lemma pow2_less_imp:
  assumes "(2::rat) powi a < 2 powi b"
  shows "a < b"
proof (rule ccontr)
  assume "\<not> a < b"
  then have "(2::rat) powi b \<le> 2 powi a" by (intro power_int_increasing) simp_all
  with assms show False by simp
qed

lemma ilog2_unique:
  assumes "0 < q" "2 powi e \<le> q" "q < 2 powi (e + 1)"
  shows "ilog2 q = e"
proof -
  note b = ilog2_bounds [OF assms(1)]
  have "(2::rat) powi e < 2 powi (ilog2 q + 1)" using assms(2) b by linarith
  then have "e < ilog2 q + 1" by (rule pow2_less_imp)
  moreover have "(2::rat) powi (ilog2 q) < 2 powi (e + 1)" using assms(3) b by linarith
  then have "ilog2 q < e + 1" by (rule pow2_less_imp)
  ultimately show ?thesis by linarith
qed


lemma double_pos:
  assumes "0 < q" "2 powi e \<le> q" "q < 2 powi (e + 1)" "- 1022 \<le> e"
    and "\<bar>q / 2 powi (e - 52) - of_int m\<bar> < 1 / 2"
    and "(of_int m :: rat) * 2 powi (e - 52) < 2 ^ 1024"
  shows "double q = Fin (of_int m * 2 powi (e - 52))"
proof -
  have e: "ilog2 \<bar>q\<bar> = e" using assms(1-3) by (simp add: ilog2_unique)
  have m: "rne (\<bar>q\<bar> / 2 powi (e - 52)) = m" using assms(1,5) by (simp add: rne_unique)
  have mx: "max e (- 1022) = e" using assms(4) by simp
  show ?thesis
    using assms(1,6) unfolding double_def e mx Let_def m by simp
qed

lemma double_neg: "double (- q) = num_neg (double q)"
  by (cases "q = 0"; cases "0 < q") (simp_all add: double_def Let_def)

lemma double_error:
  assumes "\<bar>q\<bar> \<le> 2 ^ 43"
  shows "\<exists>r. double q = Fin r \<and> \<bar>r - q\<bar> \<le> 1 / 1024"
proof (cases "q = 0")
  case True
  then show ?thesis by (simp add: double_def)
next
  case False
  then have pos: "0 < \<bar>q\<bar>" by simp
  define e where "e = max (ilog2 \<bar>q\<bar>) (- 1022)"
  define ulp :: rat where "ulp = 2 powi (e - 52)"
  define r where "r = of_int (rne (\<bar>q\<bar> / ulp)) * ulp"
  have "(2::rat) powi (ilog2 \<bar>q\<bar>) \<le> 2 ^ 43"
    using ilog2_bounds [OF pos] assms by linarith
  then have "(2::rat) powi (ilog2 \<bar>q\<bar>) < 2 powi 44" by simp
  then have "ilog2 \<bar>q\<bar> < 44" by (rule pow2_less_imp)
  then have e43: "e \<le> 43" by (simp add: e_def)
  have ulp_pos: "0 < ulp" by (simp add: ulp_def)
  have "ulp \<le> 2 powi (- 9)"
    unfolding ulp_def using e43 by (intro power_int_increasing) simp_all
  then have ulp_le: "ulp \<le> 1 / 512" by (simp add: power_int_minus field_simps)
  have "\<bar>of_int (rne (\<bar>q\<bar> / ulp)) - \<bar>q\<bar> / ulp\<bar> * ulp \<le> 1 / 2 * ulp"
    using rne_bounds [of "\<bar>q\<bar> / ulp"] ulp_pos by (intro mult_right_mono) simp_all
  moreover have "\<bar>of_int (rne (\<bar>q\<bar> / ulp)) - \<bar>q\<bar> / ulp\<bar> * ulp = \<bar>r - \<bar>q\<bar>\<bar>"
  proof -
    have "\<bar>of_int (rne (\<bar>q\<bar> / ulp)) - \<bar>q\<bar> / ulp\<bar> * ulp
        = \<bar>(of_int (rne (\<bar>q\<bar> / ulp)) - \<bar>q\<bar> / ulp) * ulp\<bar>"
      using ulp_pos by (simp add: abs_mult)
    also have "(of_int (rne (\<bar>q\<bar> / ulp)) - \<bar>q\<bar> / ulp) * ulp = r - \<bar>q\<bar>"
      using ulp_pos by (simp add: r_def field_simps)
    finally show ?thesis .
  qed
  ultimately have err: "\<bar>r - \<bar>q\<bar>\<bar> \<le> 1 / 1024" using ulp_le by linarith
  have big: "(2::rat) ^ 43 + 1 / 1024 < 2 ^ 1024" by simp
  have "r < 2 ^ 1024" using err assms big by linarith
  then have d: "double q = Fin (sgn q * r)"
    using False unfolding double_def Let_def e_def [symmetric] ulp_def [symmetric] r_def [symmetric]
    by simp
  have "\<bar>sgn q * r - q\<bar> = \<bar>r - \<bar>q\<bar>\<bar>"
    by (cases "0 < q") (use False in \<open>simp_all add: sgn_if\<close>)
  with err d show ?thesis by simp
qed


lemma double_eqI:
  assumes "0 < q" "2 powi e \<le> q" "q < 2 powi (e + 1)" "- 1022 \<le> e"
    and "\<bar>q / 2 powi (e - 52) - of_int m\<bar> < 1 / 2"
    and "of_int m * 2 powi (e - 52) = r" "r < 2 ^ 1024"
  shows "double q = Fin r"
  using double_pos [OF assms(1-5)] assms(6,7) by simp

lemma rne_tie:
  assumes "q = of_int f + 1 / 2"
  shows "rne q = (if even f then f else f + 1)"
proof -
  have "\<lfloor>q\<rfloor> = f" unfolding assms by (rule floor_unique) simp_all
  then show ?thesis by (simp add: rne_def Let_def assms)
qed

lemma double_tieI:
  assumes "0 < q" "2 powi e \<le> q" "q < 2 powi (e + 1)" "- 1022 \<le> e"
    and "q / 2 powi (e - 52) = of_int f + 1 / 2"
    and "of_int (if even f then f else f + 1) * 2 powi (e - 52) = r" "r < 2 ^ 1024"
  shows "double q = Fin r"
proof -
  have e: "ilog2 \<bar>q\<bar> = e" using assms(1-3) by (simp add: ilog2_unique)
  have m: "rne (\<bar>q\<bar> / 2 powi (e - 52)) = (if even f then f else f + 1)"
    using assms(1,5) by (simp add: rne_tie)
  have mx: "max e (- 1022) = e" using assms(4) by simp
  show ?thesis
    using assms(1,7) unfolding double_def e mx Let_def m assms(6) by simp
qed

lemma double_eqI_neg:
  assumes "q = - p" "double p = Fin r"
  shows "double q = Fin (- r)"
  using assms double_neg [of p] by simp

lemma double_int_pos:
  assumes "0 < k" "k < 2 ^ 53"
  shows "double (of_int k) = Fin (of_int k)"
proof -
  define q :: rat where "q = of_int k"
  define e where "e = ilog2 q"
  have q: "0 < q" "1 \<le> q" "q < 2 ^ 53" using assms by (simp_all add: q_def)
  note b = ilog2_bounds [OF q(1), folded e_def]
  have "(2::rat) powi 0 < 2 powi (e + 1)" using b q(2) by simp
  then have e0: "0 \<le> e" using pow2_less_imp by fastforce
  have "(2::rat) powi e < 2 powi 53" using b q(3) by simp
  then have e52: "e \<le> 52" using pow2_less_imp by fastforce
  define n where "n = nat (52 - e)"
  have ulp: "(2::rat) powi (e - 52) = 1 / 2 ^ n"
    using e52 by (simp add: n_def power_int_def power_one_over)
  have "(of_int k :: rat) < 2 ^ 1024"
  proof -
    have "(2::rat) ^ 53 < 2 ^ 1024" by simp
    with q(3) show ?thesis unfolding q_def by linarith
  qed
  then have "double q = Fin (of_int (k * 2 ^ n) * 2 powi (e - 52))"
    using q(1) b e0 by (intro double_pos) (simp_all add: ulp q_def)
  then show ?thesis by (simp add: ulp q_def)
qed

lemma double_int:
  assumes "\<bar>k\<bar> < 2 ^ 53"
  shows "double (of_int k) = Fin (of_int k)"
proof -
  consider "k = 0" | "0 < k" | "0 < - k" by linarith
  then show ?thesis
  proof cases
    case 1
    then show ?thesis by (simp add: double_def)
  next
    case 2
    with assms show ?thesis by (simp add: double_int_pos)
  next
    case 3
    with assms have "double (of_int (- k)) = Fin (of_int (- k))" by (intro double_int_pos) simp_all
    then show ?thesis using double_neg [of "of_int (- k)"] by (cases "double (of_int k)") simp_all
  qed
qed

lemma double_numeral [simp]:
  "numeral n < (2::int) ^ 53 \<Longrightarrow> double (numeral n) = Fin (numeral n)"
  using double_int [of "numeral n"] by simp

lemma double_0 [simp]: "double 0 = Fin 0"
  by (simp add: double_def)

lemma double_1 [simp]: "double 1 = Fin 1"
  using double_int [of 1] by simp

lemma num_mul_Fin [simp]: "num_mul (Fin a) (Fin b) = double (a * b)"
  by (simp add: num_mul_def)

lemma num_div_Fin [simp]: "b \<noteq> 0 \<Longrightarrow> num_div (Fin a) (Fin b) = double (a / b)"
  by (simp add: num_div_def)

lemma num_less_Fin [simp]: "num_less (Fin a) (Fin b) \<longleftrightarrow> a < b"
  by (simp add: num_less_def)

lemma num_sub_Fin [simp]: "num_sub (Fin a) (Fin b) = double (a - b)"
  by (simp add: num_sub_def)

lemma floor_rat_numeral [simp]:
  "\<lfloor>numeral a / numeral b :: rat\<rfloor> = numeral a div numeral b"
  by (metis floor_divide_of_int_eq of_int_numeral)

lemma floor_rat_neg_numeral [simp]:
  "\<lfloor>- (numeral a / numeral b) :: rat\<rfloor> = - numeral a div numeral b"
  by (metis divide_minus_left floor_divide_of_int_eq of_int_neg_numeral of_int_numeral)

lemma floor_int_half: "\<lfloor>(of_int n :: rat) + 1 / 2\<rfloor> = n"
  by (rule floor_unique) simp_all

lemma Math_round_int: "Math_round (Fin (of_int n)) = Fin (of_int n)"
  by (simp only: Math_round.simps floor_int_half)

lemma round2_int:
  assumes "\<bar>k\<bar> < 2 ^ 46"
  shows "round2 (Fin (of_int k)) = Fin (of_int k)"
proof -
  have "\<bar>k * 100\<bar> < 2 ^ 53" using assms by simp
  then have "double (of_int k * 100) = Fin (of_int (k * 100))"
    using double_int [of "k * 100"] by simp
  moreover have "\<bar>k\<bar> < 2 ^ 53" using assms by simp
  then have "double (of_int k) = Fin (of_int k)" by (rule double_int)
  ultimately show ?thesis
    using Math_round_int [of "k * 100"] by (simp add: round2_def)
qed

lemma round2_numeral [simp]:
  "numeral n < (2::int) ^ 46 \<Longrightarrow> round2 (Fin (numeral n)) = Fin (numeral n)"
  using round2_int [of "numeral n"] by simp

lemma round2_0 [simp]: "round2 (Fin 0) = Fin 0"
  using round2_int [of 0] by simp

section \<open>Validation\<close>

lemma FLOAT_EPSILON_value:
  "FLOAT_EPSILON = Fin (5764607523034235 / 576460752303423488)"
  unfolding FLOAT_EPSILON_def
  by (rule double_eqI [where e = "- 7" and m = 5764607523034235]) (simp_all add: power_int_minus)

lemma valid_amount:
  assumes "Number_isFinite a" "num_gt a (Fin 0)"
  shows "validateNotEmpty a = Valid" "validateAmount a = Valid"
  using assms
  by (cases a; simp add: validateNotEmpty_def validateAmount_def num_eq_def num_le_def num_gt_def)+

lemma validate_custom:
  assumes "Number_isFinite a" "num_gt a (Fin 0)"
  shows "validateExpenseInput a Custom ss = validateSplitTotals a ss"
  using valid_amount [OF assms] by (simp add: validateExpenseInput_def Let_def)

text \<open>
  Claim C5. For a custom split none of whose amounts is negative, and an amount that
  passed the earlier checks, the validator fails exactly when the absolute difference
  between the sum of the split amounts and the amount, as the program computes them, is
  strictly greater than \<open>FLOAT_EPSILON\<close>; the error then carries both sums. A difference
  at the tolerance is accepted.
\<close>

theorem custom_split_total_check:
  assumes "\<forall>s \<in> set ss. \<not> num_less (amount s) (Fin 0)"
    and "Number_isFinite a" "num_gt a (Fin 0)"
  shows "validateExpenseInput a Custom ss =
     (let sum = foldl (\<lambda>acc s. num_add acc (amount s)) (Fin 0) ss in
      if num_gt (Math_abs (num_sub sum a)) FLOAT_EPSILON
      then Invalid (SplitTotalMustEqual sum a) else Valid)"
  using assms(1) unfolding validate_custom [OF assms(2,3)]
  by (simp add: validateSplitTotals_def Let_def list_ex_iff)

lemma sum_40_5999:
  "double (14072341460649247 / 140737488355328) = Fin (439760670645289 / 4398046511104)"
  by (rule double_tieI [where e = 6 and f = 7036170730324623]) (simp_all add: power_int_minus)


lemma diff_100_9999:
  "double (- (43980465111 / 4398046511104)) = Fin (- (43980465111 / 4398046511104))"
  by (rule double_eqI_neg [where p = "43980465111 / 4398046511104"], simp,
      rule double_eqI [where e = "- 7" and m = 5764607523028992])
     (simp_all add: power_int_minus)

text \<open>
  The boundary example of claim C5: amount 100 with the splits 40 and 59.99. The
  program's sum is 99.99000000000001, its difference from 100 is below the tolerance,
  and the input is valid.
\<close>

theorem custom_split_total_check_witness:
  "\<not> num_less (Fin 40) (Fin 0) \<and> \<not> num_less (double (5999 / 100)) (Fin 0)
   \<and> Number_isFinite (Fin 100) \<and> num_gt (Fin 100) (Fin 0)
   \<and> validateExpenseInput (Fin 100) Custom
        [\<lparr>userId = ''a'', amount = Fin 40\<rparr>, \<lparr>userId = ''b'', amount = double (5999 / 100)\<rparr>]
       = Valid"
proof -
  have d: "double (5999 / 100) = Fin (8442841926436127 / 140737488355328)"
    by (rule double_eqI [where e = 5 and m = 8442841926436127]) (simp_all add: power_int_minus)
  have h: "\<forall>s \<in> set [\<lparr>userId = ''a'', amount = Fin 40\<rparr>,
                        \<lparr>userId = ''b'', amount = double (5999 / 100)\<rparr>].
             \<not> num_less (amount s) (Fin 0)"
    by (simp add: d)
  have f: "Number_isFinite (Fin 100)" and g: "num_gt (Fin 100) (Fin 0)"
    by (simp_all add: num_gt_def)
  show ?thesis
    using h f g custom_split_total_check [OF h f g]
    by (simp add: d sum_40_5999 diff_100_9999 FLOAT_EPSILON_value num_gt_def Let_def)
qed

lemma negative_split:
  assumes "\<exists>s \<in> set ss. num_less (amount s) (Fin 0)"
    and "Number_isFinite a" "num_gt a (Fin 0)"
  shows "validateExpenseInput a Custom ss =
     (let sum = foldl (\<lambda>acc s. num_add acc (amount s)) (Fin 0) ss in
      if num_gt (Math_abs (num_sub sum a)) FLOAT_EPSILON
      then Invalid (SplitTotalMustEqual sum a) else Invalid SplitAmountsCannotBeNegative)"
  using assms(1) unfolding validate_custom [OF assms(2,3)]
  by (simp add: validateSplitTotals_def Let_def list_ex_iff)

text \<open>
  The tolerance applies to the difference the program computes. The single split 99.99
  against the amount 100 is rejected: the computed difference is 0.010000000000005116.
\<close>

lemma double_9999: "double (9999 / 100) = Fin (7036170730324623 / 70368744177664)"
  by (rule double_eqI [where e = 6 and m = 7036170730324623]) (simp_all add: power_int_minus)

lemma double_9999_exact:
  "double (7036170730324623 / 70368744177664) = Fin (7036170730324623 / 70368744177664)"
  by (rule double_eqI [where e = 6 and m = 7036170730324623]) (simp_all add: power_int_minus)

lemma diff_100_9999_single:
  "double (- (703687441777 / 70368744177664)) = Fin (- (703687441777 / 70368744177664))"
  by (rule double_eqI_neg [where p = "703687441777 / 70368744177664"], simp,
      rule double_eqI [where e = "- 7" and m = 5764607523037184])
     (simp_all add: power_int_minus)

lemma split_9999_rejected:
  "validateExpenseInput (Fin 100) Custom [\<lparr>userId = ''a'', amount = double (9999 / 100)\<rparr>]
   = Invalid (SplitTotalMustEqual (double (9999 / 100)) (Fin 100))"
  by (simp add: validateExpenseInput_def validateNotEmpty_def validateAmount_def
      validateSplitTotals_def num_eq_def num_le_def num_gt_def Let_def
      double_9999 double_9999_exact diff_100_9999_single FLOAT_EPSILON_value)

text \<open>
  Claim C6, as the code has it. A custom split with a negative amount is always invalid.
  The sum check runs first: the reason is the split-total message when the sum is off by
  more than the tolerance, and \<^verbatim>\<open>Split amounts cannot be negative\<close> only otherwise.
\<close>

theorem negative_split_invalid:
  assumes "\<exists>s \<in> set ss. num_less (amount s) (Fin 0)"
    and "Number_isFinite a" "num_gt a (Fin 0)"
  shows "validateExpenseInput a Custom ss =
     (let sum = foldl (\<lambda>acc s. num_add acc (amount s)) (Fin 0) ss in
      if num_gt (Math_abs (num_sub sum a)) FLOAT_EPSILON
      then Invalid (SplitTotalMustEqual sum a) else Invalid SplitAmountsCannotBeNegative)"
  using assms by (rule negative_split)

text \<open>
  Claim C6 at amount 100 with the splits 110 and -10, which sum to the amount.
\<close>

theorem negative_split_invalid_witness:
  "(\<exists>s \<in> set [\<lparr>userId = ''a'', amount = Fin 110\<rparr>, \<lparr>userId = ''b'', amount = Fin (- 10)\<rparr>].
      num_less (amount s) (Fin 0))
   \<and> Number_isFinite (Fin 100) \<and> num_gt (Fin 100) (Fin 0)
   \<and> validateExpenseInput (Fin 100) Custom
        [\<lparr>userId = ''a'', amount = Fin 110\<rparr>, \<lparr>userId = ''b'', amount = Fin (- 10)\<rparr>]
       = Invalid SplitAmountsCannotBeNegative"
proof -
  have h: "\<exists>s \<in> set [\<lparr>userId = ''a'', amount = Fin 110\<rparr>, \<lparr>userId = ''b'', amount = Fin (- 10)\<rparr>].
             num_less (amount s) (Fin 0)"
    by simp
  have f: "Number_isFinite (Fin 100)" and g: "num_gt (Fin 100) (Fin 0)"
    by (simp_all add: num_gt_def)
  show ?thesis
    using h f g negative_split_invalid [OF h f g]
    by (simp add: FLOAT_EPSILON_value num_gt_def Let_def)
qed

text \<open>
  Claim C6 as stated fails at amount 100 with the splits 120 and -10: the reason returned
  is the split-total message, not the negative-amount message.
\<close>

theorem negative_split_reason_counterexample:
  "validateExpenseInput (Fin 100) Custom
     [\<lparr>userId = ''a'', amount = Fin 120\<rparr>, \<lparr>userId = ''b'', amount = Fin (- 10)\<rparr>]
   = Invalid (SplitTotalMustEqual (Fin 110) (Fin 100))
   \<and> validateExpenseInput (Fin 100) Custom
     [\<lparr>userId = ''a'', amount = Fin 120\<rparr>, \<lparr>userId = ''b'', amount = Fin (- 10)\<rparr>]
   \<noteq> Invalid SplitAmountsCannotBeNegative"
proof -
  have h: "\<exists>s \<in> set [\<lparr>userId = ''a'', amount = Fin 120\<rparr>, \<lparr>userId = ''b'', amount = Fin (- 10)\<rparr>].
             num_less (amount s) (Fin 0)"
    by simp
  have f: "Number_isFinite (Fin 100)" and g: "num_gt (Fin 100) (Fin 0)"
    by (simp_all add: num_gt_def)
  show ?thesis
    using negative_split [OF h f g]
    by (simp add: FLOAT_EPSILON_value num_gt_def Let_def)
qed

text \<open>
  Claim C8. For a finite amount greater than zero and any list of splits, an equal split
  is valid: neither the sum check nor the negative-amount check is applied.
\<close>

theorem equal_split_skips_split_checks:
  assumes "Number_isFinite a" "num_gt a (Fin 0)"
  shows "validateExpenseInput a Equal ss = Valid"
  using valid_amount [OF assms] by (simp add: validateExpenseInput_def Let_def)

text \<open>
  Claim C8 at amount 100 with a negative split and a sum far from the amount.
\<close>

theorem equal_split_skips_split_checks_witness:
  "Number_isFinite (Fin 100) \<and> num_gt (Fin 100) (Fin 0)
   \<and> validateExpenseInput (Fin 100) Equal
        [\<lparr>userId = ''a'', amount = Fin (- 5)\<rparr>, \<lparr>userId = ''b'', amount = Fin 1000\<rparr>] = Valid"
proof -
  have f: "Number_isFinite (Fin 100)" and g: "num_gt (Fin 100) (Fin 0)"
    by (simp_all add: num_gt_def)
  show ?thesis
    using f g equal_split_skips_split_checks [OF f g] by simp
qed

section \<open>Keys of the balance map\<close>

lemma proto_inherited: "''__proto__'' \<in> set Object_prototype"
  by (simp add: Object_prototype_def)

lemma round2_NaN: "round2 NaN = NaN"
  by (simp add: round2_def num_mul_def num_div_def)

lemma dom_setProp:
  "dom (setProp b k v) = (if k = ''__proto__'' then dom b else insert k (dom b))"
  by (simp add: setProp_def)

lemma dom_owe: "dom (owe b s) = dom b \<union> ({userId s} - {''__proto__''})"
  by (simp add: owe_def Let_def dom_setProp)

lemma dom_foldl_owe: "dom (foldl owe b ss) = dom b \<union> (userId ` set ss - {''__proto__''})"
  by (induction ss arbitrary: b) (auto simp: dom_owe)

lemma dom_addExpense: "dom (addExpense b e) = dom b \<union> (touched e - {''__proto__''})"
  by (auto simp: addExpense_def touched_def Let_def dom_foldl_owe dom_setProp split: option.splits)

lemma dom_foldl_addExpense:
  "dom (foldl addExpense b es) = dom b \<union> ((\<Union>e \<in> set es. touched e) - {''__proto__''})"
  by (induction es arbitrary: b) (auto simp: dom_addExpense)

lemma dom_init:
  "dom (foldl (\<lambda>balances i. setProp balances i (Fin 0)) b ms) = dom b \<union> (set ms - {''__proto__''})"
  by (induction ms arbitrary: b) (auto simp: dom_setProp)

lemma dom_calculateBalances:
  "dom (calculateBalances es ms) = (set ms \<union> (\<Union>e \<in> set es. touched e)) - {''__proto__''}"
  by (auto simp: calculateBalances_def dom_foldl_addExpense dom_init)






section \<open>The total owed in the settlement breakdown\<close>

lemma owed_visitSplit:
  "owed (visitSplit v p st s) =
     (if userId s = v then num_add (owed st) (round2 (amount s)) else owed st)"
  by (simp add: visitSplit_def Let_def)

lemma owed_foldl_visitSplit:
  "owed (foldl (visitSplit v p) st ss) =
     foldl (\<lambda>t s. num_add t (round2 (amount s))) (owed st) (filter (\<lambda>s. userId s = v) ss)"
  by (induction ss arbitrary: st) (simp_all add: owed_visitSplit)

lemma owed_visitExpense:
  "owed (visitExpense v st e) =
     foldl (\<lambda>t s. num_add t (round2 (amount s))) (owed st)
       (case payerId e of None \<Rightarrow> [] | Some p \<Rightarrow> filter (\<lambda>s. userId s = v) (splits e))"
  by (simp add: visitExpense_def Let_def owed_foldl_visitSplit split: option.splits)

lemma owed_foldl_visitExpense:
  "owed (foldl (visitExpense v) st es) =
     foldl (\<lambda>t s. num_add t (round2 (amount s))) (owed st) (viewerSplits es v)"
  by (induction es arbitrary: st) (simp_all add: viewerSplits_def owed_visitExpense)

lemma totalOwed_eq:
  "totalOwed (getSettlementBreakdown es v) = round2 (sumRounded (viewerSplits es v))"
  by (simp add: getSettlementBreakdown_def Let_def owed_foldl_visitExpense sumRounded_def)

text \<open>
  Claim C1, as the code has it. \<open>totalOwed\<close> is the rounded running sum of the rounded
  amounts of all the viewer's splits, over every expense with a resolvable payer,
  whoever paid: the viewer's split on an expense the viewer paid counts as well.
\<close>

theorem totalOwed_all_viewer_splits:
  "totalOwed (getSettlementBreakdown expenses viewerId) =
     round2 (sumRounded (viewerSplits expenses viewerId))"
  by (rule totalOwed_eq)

text \<open>
  Claim C1 as stated fails on the expense of 100 that U1 paid, split 50 and 50 between U1
  and U2, seen by U1: \<open>totalOwed\<close> is 50, where the sum over the expenses that others
  paid is 0.
\<close>

theorem totalOwed_counterexample:
  "totalOwed (getSettlementBreakdown
      [\<lparr>exp_amount = Fin 100, paidBy = Some \<lparr>user_id = ''U1'', name = ''A''\<rparr>, splitType = Equal,
        splits = [\<lparr>userId = ''U1'', amount = Fin 50\<rparr>, \<lparr>userId = ''U2'', amount = Fin 50\<rparr>]\<rparr>]
      ''U1'') = Fin 50
   \<and> round2 (sumRounded (splitsOwedToOthers
      [\<lparr>exp_amount = Fin 100, paidBy = Some \<lparr>user_id = ''U1'', name = ''A''\<rparr>, splitType = Equal,
        splits = [\<lparr>userId = ''U1'', amount = Fin 50\<rparr>, \<lparr>userId = ''U2'', amount = Fin 50\<rparr>]\<rparr>]
      ''U1'')) = Fin 0
   \<and> totalOwed (getSettlementBreakdown
      [\<lparr>exp_amount = Fin 100, paidBy = Some \<lparr>user_id = ''U1'', name = ''A''\<rparr>, splitType = Equal,
        splits = [\<lparr>userId = ''U1'', amount = Fin 50\<rparr>, \<lparr>userId = ''U2'', amount = Fin 50\<rparr>]\<rparr>]
      ''U1'')
     \<noteq> round2 (sumRounded (splitsOwedToOthers
      [\<lparr>exp_amount = Fin 100, paidBy = Some \<lparr>user_id = ''U1'', name = ''A''\<rparr>, splitType = Equal,
        splits = [\<lparr>userId = ''U1'', amount = Fin 50\<rparr>, \<lparr>userId = ''U2'', amount = Fin 50\<rparr>]\<rparr>]
      ''U1''))"
  by (simp add: totalOwed_eq sumRounded_def viewerSplits_def splitsOwedToOthers_def payerId_def)


section \<open>Rounding to two decimals\<close>

lemma round2_Fin:
  assumes "num_mul x (Fin 100) = Fin s"
  shows "round2 x = num_div (Fin (of_int \<lfloor>s + 1 / 2\<rfloor>)) (Fin 100)"
  by (simp add: round2_def assms)

lemma round2_not_Fin:
  assumes "\<not> Number_isFinite (num_mul x (Fin 100))"
  shows "round2 x = num_mul x (Fin 100)"
  using assms by (cases "num_mul x (Fin 100)") (simp_all add: round2_def num_div_def signed_infinity_def)

text \<open>
  Claim C4, as the code has it. When the scaled value \<open>x * 100\<close> is finite, \<open>round2\<close>
  divides by 100 an integer nearest to it, and on a tie the integer above it
  (\<^verbatim>\<open>Math.round\<close> rounds half up, also for negative values).
\<close>

theorem round2_ties_up:
  assumes "num_mul x (Fin 100) = Fin s"
  shows "\<exists>n. round2 x = num_div (Fin (of_int n)) (Fin 100)
           \<and> \<bar>of_int n - s\<bar> \<le> 1 / 2
           \<and> (\<bar>of_int n - s\<bar> = 1 / 2 \<longrightarrow> of_int n = s + 1 / 2)"
proof -
  have "\<bar>of_int \<lfloor>s + 1 / 2\<rfloor> - s\<bar> \<le> 1 / 2" by linarith
  moreover have "\<bar>of_int \<lfloor>s + 1 / 2\<rfloor> - s\<bar> = 1 / 2 \<longrightarrow> of_int \<lfloor>s + 1 / 2\<rfloor> = s + 1 / 2"
    by linarith
  ultimately show ?thesis using round2_Fin [OF assms] by blast
qed

lemma double_125: "double (- (25 / 2)) = Fin (- (25 / 2))"
  by (rule double_eqI_neg [where p = "25 / 2"], simp,
      rule double_eqI [where e = 3 and m = "25 * 2 ^ 48"]) (simp_all add: power_int_minus)

lemma double_012: "double (- (3 / 25)) = Fin (- (1080863910568919 / 9007199254740992))"
  by (rule double_eqI_neg [where p = "3 / 25"], simp,
      rule double_eqI [where e = "- 4" and m = 8646911284551352]) (simp_all add: power_int_minus)

lemma double_013: "double (- (13 / 100)) = Fin (- (1170935903116329 / 9007199254740992))"
  by (rule double_eqI_neg [where p = "13 / 100"], simp,
      rule double_eqI [where e = "- 3" and m = 4683743612465316]) (simp_all add: power_int_minus)

lemma mul_eighth: "num_mul (Fin (- (1 / 8))) (Fin 100) = Fin (- (25 / 2))"
  by (simp add: double_125)

text \<open>
  Claim C4 at \<open>x = - 0.125\<close>, whose scaled value is \<open>- 12.5\<close>: the integer is \<open>- 12\<close>.
\<close>

theorem round2_ties_up_witness:
  "num_mul (Fin (- (1 / 8))) (Fin 100) = Fin (- (25 / 2))
   \<and> round2 (Fin (- (1 / 8))) = num_div (Fin (- 12)) (Fin 100)"
proof -
  obtain n where n: "round2 (Fin (- (1 / 8))) = num_div (Fin (of_int n)) (Fin 100)"
      "\<bar>of_int n - (- (25 / 2) :: rat)\<bar> \<le> 1 / 2"
      "\<bar>of_int n - (- (25 / 2) :: rat)\<bar> = 1 / 2 \<longrightarrow> of_int n = (- (25 / 2) :: rat) + 1 / 2"
    using round2_ties_up [OF mul_eighth] by blast
  have "(of_int n :: rat) \<le> - 12" "(- 13 :: rat) \<le> of_int n"
    using n(2) by linarith+
  then have "(of_int n :: rat) \<le> of_int (- 12)" "(of_int (- 13) :: rat) \<le> of_int n"
    by simp_all
  then have "n \<le> - 12" "- 13 \<le> n" by (simp_all only: of_int_le_iff)
  then have "n = - 12 \<or> n = - 13" by linarith
  then have "n = - 12" using n(3) by auto
  with n(1) have "round2 (Fin (- (1 / 8))) = num_div (Fin (of_int (- 12))) (Fin 100)" by simp
  then show ?thesis using mul_eighth by simp
qed

text \<open>
  Claim C4 as stated fails at \<open>x = - 0.125\<close>: \<open>round2\<close> gives \<open>- 0.12\<close>, where rounding
  the scaled value \<open>- 12.5\<close> away from zero gives \<open>- 0.13\<close>.
\<close>

theorem round2_ties_away_counterexample:
  "round2 (Fin (- (1 / 8))) = double (- (12 / 100))
   \<and> round2_ties_away (Fin (- (1 / 8))) = double (- (13 / 100))
   \<and> round2 (Fin (- (1 / 8))) \<noteq> round2_ties_away (Fin (- (1 / 8)))"
  by (simp add: round2_def round2_ties_away_def double_125 double_012 double_013)


section \<open>Equal splits\<close>

lemma map_enumerate_nth:
  "map (\<lambda>(i, u). f i u) (enumerate 0 xs) = map (\<lambda>i. f i (xs ! i)) [0..<length xs]"
  by (rule nth_equalityI) (simp_all add: nth_enumerate_eq)

lemma buildEqualSplits_nth:
  "buildEqualSplits a ids =
     (let n = Fin (of_nat (length ids));
          totalCents = Math_round (num_mul a (Fin 100));
          shareCents = Math_floor (num_div totalCents n);
          remainder = num_sub totalCents (num_mul shareCents n)
      in map (\<lambda>i. \<lparr>userId = ids ! i,
                     amount = num_div (num_add shareCents
                                (if num_less (Fin (of_nat i)) remainder then Fin 1 else Fin 0))
                              (Fin 100)\<rparr>)
             [0..<length ids])"
  by (simp add: buildEqualSplits_def Let_def map_enumerate_nth)

lemma double_third: "double (10000 / 3) = Fin (7330077518506667 / 2199023255552)"
  by (rule double_eqI [where e = 11 and m = 7330077518506667]) (simp_all add: power_int_minus)

lemma buildEqualSplits_100:
  "buildEqualSplits (Fin 100) [''a'', ''b'', ''c''] =
     [\<lparr>userId = ''a'', amount = double (3334 / 100)\<rparr>,
      \<lparr>userId = ''b'', amount = double (3333 / 100)\<rparr>,
      \<lparr>userId = ''c'', amount = double (3333 / 100)\<rparr>]"
  by (simp add: buildEqualSplits_def Let_def enumerate_eq_zip upt_rec double_third)

text \<open>
  Claim C7. With \<open>totalCents = Math.round(amount * 100)\<close>,
  \<open>shareCents = Math.floor(totalCents / n)\<close> and
  \<open>remainder = totalCents - shareCents * n\<close>, the participant at index \<open>i\<close> gets
  \<open>(shareCents + (i < remainder ? 1 : 0)) / 100\<close>; and 100 split between a, b and c gives
  33.34, 33.33 and 33.33.
\<close>

theorem buildEqualSplits_remainder_first:
  "buildEqualSplits a ids =
     (let n = Fin (of_nat (length ids));
          totalCents = Math_round (num_mul a (Fin 100));
          shareCents = Math_floor (num_div totalCents n);
          remainder = num_sub totalCents (num_mul shareCents n)
      in map (\<lambda>i. \<lparr>userId = ids ! i,
                     amount = num_div (num_add shareCents
                                (if num_less (Fin (of_nat i)) remainder then Fin 1 else Fin 0))
                              (Fin 100)\<rparr>)
             [0..<length ids])
   \<and> buildEqualSplits (Fin 100) [''a'', ''b'', ''c''] =
     [\<lparr>userId = ''a'', amount = double (3334 / 100)\<rparr>,
      \<lparr>userId = ''b'', amount = double (3333 / 100)\<rparr>,
      \<lparr>userId = ''c'', amount = double (3333 / 100)\<rparr>]"
  using buildEqualSplits_nth buildEqualSplits_100 by (rule conjI)


subsection \<open>The sum of an equal split\<close>

lemma double_03: "double (3 / 10) = Fin (5404319552844595 / 18014398509481984)"
  by (rule double_eqI [where e = "- 2" and m = 5404319552844595]) (simp_all add: power_int_minus)

lemma double_30: "double (135107988821114875 / 4503599627370496) = Fin 30"
  by (rule double_eqI [where e = 4 and m = 8444249301319680]) (simp_all add: power_int_minus)

lemma double_01: "double (1 / 10) = Fin (3602879701896397 / 36028797018963968)"
  by (rule double_eqI [where e = "- 4" and m = 7205759403792794]) (simp_all add: power_int_minus)

lemma double_01_exact: "double (3602879701896397 / 36028797018963968) = Fin (3602879701896397 / 36028797018963968)"
  by (rule double_eqI [where e = "- 4" and m = 7205759403792794]) (simp_all add: power_int_minus)

lemma double_02_exact: "double (3602879701896397 / 18014398509481984) = Fin (3602879701896397 / 18014398509481984)"
  by (rule double_eqI [where e = "- 3" and m = 7205759403792794]) (simp_all add: power_int_minus)

lemma double_03_sum: "double (10808639105689191 / 36028797018963968) = Fin (1351079888211149 / 4503599627370496)"
  by (rule double_tieI [where e = "- 2" and f = 5404319552844595]) (simp_all add: power_int_minus)

text \<open>
  Claim C2 fails at the amount 0.3 split between three participants: each gets 0.1, and
  the sum 0.1 + 0.1 + 0.1 is 0.30000000000000004 in binary64, not \<open>round2 0.3 = 0.3\<close>.
\<close>

theorem buildEqualSplits_sum_drift:
  "foldl (\<lambda>acc s. num_add acc (amount s)) (Fin 0)
     (buildEqualSplits (double (3 / 10)) [''a'', ''b'', ''c''])
     = Fin (1351079888211149 / 4503599627370496)
   \<and> round2 (double (3 / 10)) = Fin (5404319552844595 / 18014398509481984)
   \<and> foldl (\<lambda>acc s. num_add acc (amount s)) (Fin 0)
     (buildEqualSplits (double (3 / 10)) [''a'', ''b'', ''c''])
     \<noteq> round2 (double (3 / 10))"
  by (simp add: buildEqualSplits_def round2_def Let_def enumerate_eq_zip upt_rec
      double_03 double_30 double_01 double_01_exact double_02_exact double_03_sum)

section \<open>Balances in cents\<close>

lemma fromCents_double: "fromCents k = double (of_int k / 100)"
  by (simp add: fromCents_def)

lemma rat_of_int_bound:
  assumes "\<bar>k\<bar> \<le> 2 ^ 42"
  shows "\<bar>of_int k :: rat\<bar> \<le> 4398046511104"
proof -
  have "(of_int \<bar>k\<bar> :: rat) \<le> of_int (2 ^ 42)" using assms by (simp only: of_int_le_iff)
  then show ?thesis by simp
qed

lemma fromCents_error:
  assumes "\<bar>k\<bar> \<le> 2 ^ 42"
  shows "\<exists>r. fromCents k = Fin r \<and> \<bar>r - of_int k / 100\<bar> \<le> 1 / 1024"
proof -
  have "\<bar>of_int k / 100 :: rat\<bar> \<le> 8796093022208"
    using rat_of_int_bound [OF assms] by linarith
  then have "\<bar>of_int k / 100 :: rat\<bar> \<le> 2 ^ 43" by simp
  then show ?thesis unfolding fromCents_double by (rule double_error)
qed

lemma Math_round_near:
  assumes "\<bar>p - of_int n\<bar> < 1 / 2"
  shows "Math_round (Fin p) = Fin (of_int n)"
proof -
  have "\<lfloor>p + 1 / 2\<rfloor> = n" using assms by (intro floor_unique) linarith+
  then show ?thesis by simp
qed

lemma round2_add_cents:
  assumes "\<bar>a\<bar> \<le> 2 ^ 42" "\<bar>b\<bar> \<le> 2 ^ 42" "\<bar>a + b\<bar> \<le> 2 ^ 42"
  shows "round2 (num_add (fromCents a) (fromCents b)) = fromCents (a + b)"
proof -
  define A :: rat where "A = of_int a"
  define B :: rat where "B = of_int b"
  have A: "\<bar>A\<bar> \<le> 4398046511104" and B: "\<bar>B\<bar> \<le> 4398046511104"
    and AB: "\<bar>A + B\<bar> \<le> 4398046511104"
    using rat_of_int_bound [OF assms(1)] rat_of_int_bound [OF assms(2)]
      rat_of_int_bound [OF assms(3)] by (simp_all add: A_def B_def)
  obtain ra where ra: "fromCents a = Fin ra" "\<bar>ra - A / 100\<bar> \<le> 1 / 1024"
    using fromCents_error [OF assms(1)] unfolding A_def by blast
  obtain rb where rb: "fromCents b = Fin rb" "\<bar>rb - B / 100\<bar> \<le> 1 / 1024"
    using fromCents_error [OF assms(2)] unfolding B_def by blast
  have "\<bar>ra + rb\<bar> \<le> 8796093022208" using ra(2) rb(2) A B by linarith
  then have "\<bar>ra + rb\<bar> \<le> 2 ^ 43" by simp
  then obtain s where s: "double (ra + rb) = Fin s" "\<bar>s - (ra + rb)\<bar> \<le> 1 / 1024"
    using double_error by blast
  have s100: "\<bar>s * 100 - (A + B)\<bar> \<le> 300 / 1024" using s(2) ra(2) rb(2) by linarith
  then have "\<bar>s * 100\<bar> \<le> 8796093022208" using AB by linarith
  then have "\<bar>s * 100\<bar> \<le> 2 ^ 43" by simp
  then obtain p where p: "double (s * 100) = Fin p" "\<bar>p - s * 100\<bar> \<le> 1 / 1024"
    using double_error by blast
  have "\<bar>p - (A + B)\<bar> < 1 / 2" using p(2) s100 by linarith
  then have "\<bar>p - of_int (a + b)\<bar> < 1 / 2" by (simp add: A_def B_def)
  then have r: "Math_round (Fin p) = Fin (of_int (a + b))" by (rule Math_round_near)
  have "num_add (fromCents a) (fromCents b) = Fin s" by (simp add: ra(1) rb(1) s(1))
  moreover have "num_mul (Fin s) (Fin 100) = Fin p" by (simp add: p(1))
  ultimately show ?thesis unfolding round2_def fromCents_def [of "a + b"] by (simp only: r)
qed


lemma num_neg_fromCents: "num_neg (fromCents b) = fromCents (- b)"
  using double_neg [of "of_int b / 100"] by (simp add: fromCents_double)

lemma round2_sub_cents:
  assumes "\<bar>a\<bar> \<le> 2 ^ 42" "\<bar>b\<bar> \<le> 2 ^ 42" "\<bar>a - b\<bar> \<le> 2 ^ 42"
  shows "round2 (num_sub (fromCents a) (fromCents b)) = fromCents (a - b)"
  using round2_add_cents [of a "- b"] assms by (simp add: num_sub_def num_neg_fromCents)

lemma fromCents_0: "fromCents 0 = Fin 0"
  by (simp add: fromCents_def)

lemma round2_cents:
  assumes "Number_isFinite (round2 x)"
  shows "round2 x = fromCents (cents x)"
proof (cases "num_mul x (Fin 100)")
  case (Fin s)
  then show ?thesis by (simp add: round2_def cents_def fromCents_def)
qed (use assms in \<open>simp_all add: round2_def num_div_def signed_infinity_def\<close>)

lemma cents_fromCents:
  assumes "\<bar>k\<bar> \<le> 2 ^ 42"
  shows "cents (fromCents k) = k"
proof -
  define K :: rat where "K = of_int k"
  have K: "\<bar>K\<bar> \<le> 4398046511104" using rat_of_int_bound [OF assms] by (simp add: K_def)
  obtain r where r: "fromCents k = Fin r" "\<bar>r - K / 100\<bar> \<le> 1 / 1024"
    using fromCents_error [OF assms] unfolding K_def by blast
  have r100: "\<bar>r * 100 - K\<bar> \<le> 100 / 1024" using r(2) by linarith
  then have "\<bar>r * 100\<bar> \<le> 8796093022208" using K by linarith
  then have "\<bar>r * 100\<bar> \<le> 2 ^ 43" by simp
  then obtain p where p: "double (r * 100) = Fin p" "\<bar>p - r * 100\<bar> \<le> 1 / 1024"
    using double_error by blast
  have "\<bar>p - K\<bar> < 1 / 2" using p(2) r100 by linarith
  then have "Math_round (Fin p) = Fin (of_int k)" unfolding K_def by (rule Math_round_near)
  then show ?thesis by (simp add: cents_def r(1) p(1))
qed


lemma cents_int:
  assumes "\<bar>k\<bar> < 2 ^ 46"
  shows "cents (Fin (of_int k)) = k * 100"
proof -
  have "\<bar>k * 100\<bar> < 2 ^ 53" using assms by simp
  then have "double (of_int k * 100) = Fin (of_int (k * 100))"
    using double_int [of "k * 100"] by simp
  then have "Math_round (num_mul (Fin (of_int k)) (Fin 100)) = Fin (of_int (k * 100))"
    using Math_round_int [of "k * 100"] by simp
  then show ?thesis unfolding cents_def by (simp only: number.case floor_of_int)
qed

lemma cents_numeral [simp]:
  "numeral n < (2::int) ^ 46 \<Longrightarrow> cents (Fin (numeral n)) = numeral n * 100"
  using cents_int [of "numeral n"] by simp

subsection \<open>The calculation as a fold over postings\<close>

lemma post_setProp:
  "post b (k, cr, x) =
     setProp b k (round2 (toNumber ((if cr then js_add else js_sub)
                                      (coalesce0 (readProp k (b k))) (round2 x))))"
  by (auto simp: post_def step_def setProp_def)

lemma owe_post: "owe b s = post b (userId s, False, amount s)"
  by (simp add: owe_def post_setProp Let_def)

lemma foldl_owe_post:
  "foldl owe b ss = foldl post b (map (\<lambda>s. (userId s, False, amount s)) ss)"
  by (induction ss arbitrary: b) (simp_all add: owe_post)

lemma addExpense_post: "addExpense b e = foldl post b (postings e)"
  by (simp add: addExpense_def postings_def post_setProp Let_def foldl_owe_post
      split: option.splits)

lemma foldl_addExpense_post:
  "foldl addExpense b es = foldl post b (concat (map postings es))"
  by (induction es arbitrary: b) (simp_all add: addExpense_post)

lemma foldl_post_at:
  "foldl post b ps k = foldl (step k) (b k) (map snd (filter (\<lambda>p. fst p = k) ps))"
  by (induction ps arbitrary: b) (simp_all add: post_def)

lemma init_at:
  "foldl (\<lambda>balances i. setProp balances i (Fin 0)) b ms k =
     (if k \<in> set ms \<and> k \<noteq> ''__proto__'' then Some (Fin 0) else b k)"
  by (induction ms arbitrary: b) (auto simp: setProp_def)

lemma calculateBalances_at:
  "calculateBalances es ms k =
     foldl (step k) (if k \<in> set ms \<and> k \<noteq> ''__proto__'' then Some (Fin 0) else None)
       (postingsAt k es)"
  by (simp add: calculateBalances_def foldl_addExpense_post foldl_post_at init_at postingsAt_def)

text \<open>The key \<^verbatim>\<open>__proto__\<close> never gets a property.\<close>

lemma foldl_step_proto: "foldl (step ''__proto__'') v qs = v"
  by (induction qs arbitrary: v) (simp_all add: step_def split: prod.splits)

text \<open>
  Another inherited name that is not a member id holds \<open>NaN\<close> from its first posting on.
\<close>

lemma step_NaN:
  assumes "k \<noteq> ''__proto__''"
  shows "step k (Some NaN) q = Some NaN"
  using assms
  by (cases q) (simp add: step_def readProp_def coalesce0_def js_sub_def num_sub_def round2_NaN)

lemma step_inherited:
  assumes "k \<noteq> ''__proto__''" "k \<in> set Object_prototype"
  shows "step k None q = Some NaN"
  using assms
  by (cases q) (simp add: step_def readProp_def coalesce0_def js_sub_def num_sub_def round2_NaN)

lemma foldl_step_NaN:
  assumes "k \<noteq> ''__proto__''"
  shows "foldl (step k) (Some NaN) qs = Some NaN"
  by (induction qs) (simp_all add: step_NaN [OF assms])

lemma foldl_step_inherited:
  assumes "k \<noteq> ''__proto__''" "k \<in> set Object_prototype"
  shows "foldl (step k) None qs = (if qs = [] then None else Some NaN)"
  by (cases qs) (simp_all add: step_inherited [OF assms] foldl_step_NaN [OF assms(1)])

text \<open>Every other key is read through \<^verbatim>\<open>?? 0\<close> and stays an exact number of cents.\<close>

lemma step_number:
  assumes "k \<noteq> ''__proto__''" "v \<noteq> None \<or> k \<notin> set Object_prototype"
  shows "step k v (cr, x) =
     Some (round2 ((if cr then num_add else num_sub) (orZero v) (round2 x)))"
  using assms
  by (cases v) (simp_all add: step_def readProp_def coalesce0_def js_sub_def orZero_def)

lemma netCents_Cons:
  "netCents ((cr, x) # qs) = (if cr then cents x else - cents x) + netCents qs"
  by (simp add: netCents_def)

lemma foldl_step_cents:
  assumes "k \<noteq> ''__proto__''" "v \<noteq> None \<or> k \<notin> set Object_prototype"
    and "orZero v = fromCents c" "\<bar>c\<bar> \<le> w"
    and "w + (\<Sum>q\<leftarrow>qs. \<bar>cents (snd q)\<bar>) \<le> 2 ^ 42"
    and "\<forall>q \<in> set qs. Number_isFinite (round2 (snd q))"
  shows "foldl (step k) v qs = (if qs = [] then v else Some (fromCents (c + netCents qs)))
         \<and> \<bar>c + netCents qs\<bar> \<le> w + (\<Sum>q\<leftarrow>qs. \<bar>cents (snd q)\<bar>)"
  using assms(2-)
proof (induction qs arbitrary: v c w)
  case Nil
  then show ?case by (simp add: netCents_def)
next
  case (Cons q qs)
  obtain cr x where q: "q = (cr, x)" by (cases q)
  define d where "d = (if cr then cents x else - cents x)"
  have rest: "0 \<le> (\<Sum>q\<leftarrow>qs. \<bar>cents (snd q)\<bar>)" by (induction qs) simp_all
  have x: "round2 x = fromCents (cents x)" using round2_cents [of x] Cons.prems(5) by (simp add: q)
  have b: "\<bar>c\<bar> \<le> 2 ^ 42" "\<bar>cents x\<bar> \<le> 2 ^ 42" "\<bar>c + cents x\<bar> \<le> 2 ^ 42" "\<bar>c - cents x\<bar> \<le> 2 ^ 42"
    using Cons.prems(3,4) rest by (simp_all add: q)
  have s: "step k v q = Some (fromCents (c + d))"
    using b by (simp add: q step_number [OF assms(1) Cons.prems(1)] Cons.prems(2) x d_def
        round2_add_cents round2_sub_cents)
  have IH: "foldl (step k) (Some (fromCents (c + d))) qs =
          (if qs = [] then Some (fromCents (c + d)) else Some (fromCents (c + d + netCents qs)))
        \<and> \<bar>c + d + netCents qs\<bar> \<le> (w + \<bar>cents x\<bar>) + (\<Sum>q\<leftarrow>qs. \<bar>cents (snd q)\<bar>)"
  proof (rule Cons.IH)
    show "Some (fromCents (c + d)) \<noteq> None \<or> k \<notin> set Object_prototype" by simp
    show "orZero (Some (fromCents (c + d))) = fromCents (c + d)" by (simp add: orZero_def)
    have "\<bar>c + cents x\<bar> \<le> w + \<bar>cents x\<bar>" "\<bar>c - cents x\<bar> \<le> w + \<bar>cents x\<bar>"
      using Cons.prems(3) by linarith+
    then show "\<bar>c + d\<bar> \<le> w + \<bar>cents x\<bar>" by (simp add: d_def)
    show "w + \<bar>cents x\<bar> + (\<Sum>q\<leftarrow>qs. \<bar>cents (snd q)\<bar>) \<le> 2 ^ 42"
      using Cons.prems(4) by (simp add: q)
    show "\<forall>q \<in> set qs. Number_isFinite (round2 (snd q))" using Cons.prems(5) by simp
  qed
  have n: "c + netCents (q # qs) = c + d + netCents qs"
    by (simp add: q netCents_Cons d_def)
  have f: "foldl (step k) v (q # qs) = foldl (step k) (Some (fromCents (c + d))) qs"
    by (simp add: s)
  have e: "(\<Sum>q\<leftarrow>q # qs. \<bar>cents (snd q)\<bar>) = \<bar>cents x\<bar> + (\<Sum>q\<leftarrow>qs. \<bar>cents (snd q)\<bar>)"
    by (simp add: q)
  show ?case
  proof (cases "qs = []")
    case True
    then show ?thesis using IH unfolding n f e by (simp add: netCents_def)
  next
    case False
    then show ?thesis using IH unfolding n f e by simp
  qed
qed

lemma sum_filter_le:
  fixes f :: "'a \<Rightarrow> int"
  assumes "\<And>x. 0 \<le> f x"
  shows "(\<Sum>x\<leftarrow>filter P xs. f x) \<le> (\<Sum>x\<leftarrow>xs. f x)"
  by (induction xs) (simp_all add: assms add_increasing)

lemma amountsRead_postings:
  "amountsRead es = map (\<lambda>p. snd (snd p)) (concat (map postings es))"
  by (induction es) (simp_all add: amountsRead_def postings_def comp_def split: option.splits)

lemma volume_at:
  "(\<Sum>q\<leftarrow>postingsAt k es. \<bar>cents (snd q)\<bar>) \<le> (\<Sum>x\<leftarrow>amountsRead es. \<bar>cents x\<bar>)"
  using sum_filter_le [of "\<lambda>p. \<bar>cents (snd (snd p))\<bar>" "\<lambda>p. fst p = k" "concat (map postings es)"]
  by (simp add: postingsAt_def amountsRead_postings comp_def)

lemma finite_at:
  assumes "\<forall>x \<in> set (amountsRead es). Number_isFinite (round2 x)"
  shows "\<forall>q \<in> set (postingsAt k es). Number_isFinite (round2 (snd q))"
  using assms by (fastforce simp: postingsAt_def amountsRead_postings)

lemma calculateBalances_value:
  assumes "\<forall>x \<in> set (amountsRead es). Number_isFinite (round2 x)"
    and "(\<Sum>x\<leftarrow>amountsRead es. \<bar>cents x\<bar>) \<le> 2 ^ 42"
  shows "calculateBalances es ms k =
     (if k = ''__proto__'' then None
      else if k \<in> set ms then Some (fromCents (netCents (postingsAt k es)))
      else if postingsAt k es = [] then None
      else if k \<in> set Object_prototype then Some NaN
      else Some (fromCents (netCents (postingsAt k es))))"
    and "k \<noteq> ''__proto__'' \<Longrightarrow> k \<in> set ms \<or> k \<notin> set Object_prototype \<Longrightarrow>
         \<bar>netCents (postingsAt k es)\<bar> \<le> 2 ^ 42"
proof -
  let ?qs = "postingsAt k es"
  have vol: "0 + (\<Sum>q\<leftarrow>?qs. \<bar>cents (snd q)\<bar>) \<le> 2 ^ 42"
    using volume_at [of k es] assms(2) by simp
  note fin = finite_at [OF assms(1), of k]
  have num: "foldl (step k) v ?qs = (if ?qs = [] then v else Some (fromCents (0 + netCents ?qs)))
             \<and> \<bar>0 + netCents ?qs\<bar> \<le> 0 + (\<Sum>q\<leftarrow>?qs. \<bar>cents (snd q)\<bar>)"
    if "k \<noteq> ''__proto__''" "v \<noteq> None \<or> k \<notin> set Object_prototype" "orZero v = fromCents 0" for v
    using that(1,2,3) _ vol fin by (rule foldl_step_cents) simp
  show "calculateBalances es ms k =
     (if k = ''__proto__'' then None
      else if k \<in> set ms then Some (fromCents (netCents ?qs))
      else if ?qs = [] then None
      else if k \<in> set Object_prototype then Some NaN
      else Some (fromCents (netCents ?qs)))"
  proof (cases "k = ''__proto__''")
    case True
    then show ?thesis by (simp add: calculateBalances_at foldl_step_proto)
  next
    case proto: False
    show ?thesis
    proof (cases "k \<in> set ms")
      case True
      have "foldl (step k) (Some (Fin 0)) ?qs =
              (if ?qs = [] then Some (Fin 0) else Some (fromCents (0 + netCents ?qs)))"
        using num [of "Some (Fin 0)"] proto by (simp add: orZero_def fromCents_0)
      then show ?thesis using proto True
        by (simp add: calculateBalances_at netCents_def fromCents_0)
    next
      case member: False
      show ?thesis
      proof (cases "k \<in> set Object_prototype")
        case True
        then show ?thesis using proto member
          by (simp add: calculateBalances_at foldl_step_inherited)
      next
        case False
        have "foldl (step k) None ?qs =
                (if ?qs = [] then None else Some (fromCents (0 + netCents ?qs)))"
          using num [of None] proto False by (simp add: orZero_def fromCents_0)
        then show ?thesis using proto member False by (simp add: calculateBalances_at)
      qed
    qed
  qed
  show "\<bar>netCents ?qs\<bar> \<le> 2 ^ 42"
    if "k \<noteq> ''__proto__''" "k \<in> set ms \<or> k \<notin> set Object_prototype"
  proof -
    have "\<bar>0 + netCents ?qs\<bar> \<le> 0 + (\<Sum>q\<leftarrow>?qs. \<bar>cents (snd q)\<bar>)"
    proof (cases "k \<in> set ms")
      case True
      then show ?thesis using num [of "Some (Fin 0)"] that by (simp add: orZero_def fromCents_0)
    next
      case False
      then show ?thesis using num [of None] that by (simp add: orZero_def fromCents_0)
    qed
    with vol show ?thesis by simp
  qed
qed

subsection \<open>Independence of the order of the expenses\<close>

lemma mset_concat_map:
  assumes "mset es' = mset es"
  shows "mset (concat (map f es')) = mset (concat (map f es))"
proof -
  have "mset (concat (map f xs)) = (\<Sum>x\<in>#mset xs. mset (f x))" for xs :: "'a list"
    by (induction xs) simp_all
  then show ?thesis by (simp add: assms)
qed

lemma net_mset:
  assumes "mset ps' = mset ps"
  shows "net ps' k = net ps k"
proof -
  have "net xs k = (\<Sum>p\<in>#mset xs. if fst p = k then signedCents p else 0)" for xs
    by (induction xs) (simp_all add: net_def)
  then show ?thesis by (simp add: assms)
qed

lemma sum_abs_cents_mset:
  assumes "mset xs' = mset xs"
  shows "(\<Sum>x\<leftarrow>xs'. \<bar>cents x\<bar>) = (\<Sum>x\<leftarrow>xs. \<bar>cents x\<bar>)"
proof -
  have "(\<Sum>x\<leftarrow>ys. \<bar>cents x\<bar>) = (\<Sum>x\<in>#mset ys. \<bar>cents x\<bar>)" for ys
    by (induction ys) simp_all
  then show ?thesis by (simp add: assms)
qed

lemma amountsRead_mset:
  assumes "mset es' = mset es"
  shows "mset (amountsRead es') = mset (amountsRead es)"
  unfolding amountsRead_def using assms by (rule mset_concat_map)

lemma postingsAt_mset:
  assumes "mset es' = mset es"
  shows "mset (postingsAt k es') = mset (postingsAt k es)"
  unfolding postingsAt_def mset_map mset_filter
  by (simp only: mset_concat_map [OF assms])

lemma netCents_mset:
  assumes "mset qs' = mset qs"
  shows "netCents qs' = netCents qs"
proof -
  have "netCents xs = (\<Sum>(credit, x)\<in>#mset xs. if credit then cents x else - cents x)" for xs
    by (induction xs) (simp_all add: netCents_def)
  then show ?thesis by (simp add: assms)
qed

lemma empty_mset:
  assumes "mset qs' = mset qs"
  shows "qs' = [] \<longleftrightarrow> qs = []"
  using assms by (metis mset_zero_iff)

lemma order_independent:
  assumes "mset es' = mset es"
    and "\<forall>x \<in> set (amountsRead es). Number_isFinite (round2 x)"
    and "(\<Sum>x\<leftarrow>amountsRead es. \<bar>cents x\<bar>) \<le> 2 ^ 42"
  shows "calculateBalances es' ms = calculateBalances es ms"
proof
  fix k
  have fin': "\<forall>x \<in> set (amountsRead es'). Number_isFinite (round2 x)"
    using assms(2) mset_eq_setD [OF amountsRead_mset [OF assms(1)]] by simp
  have vol': "(\<Sum>x\<leftarrow>amountsRead es'. \<bar>cents x\<bar>) \<le> 2 ^ 42"
    using assms(3) sum_abs_cents_mset [OF amountsRead_mset [OF assms(1)]] by simp
  note m = postingsAt_mset [OF assms(1), of k]
  show "calculateBalances es' ms k = calculateBalances es ms k"
    unfolding calculateBalances_value(1) [OF fin' vol'] calculateBalances_value(1) [OF assms(2,3)]
      netCents_mset [OF m] empty_mset [OF m] ..
qed

text \<open>
  Claim C9, within the range where binary64 is exact on cents. When the amounts that are
  read round to finite values and their absolute values in cents sum to at most
  \<open>2 ^ 42\<close>, a reordering of the expense list gives the same balance map.
\<close>

theorem calculateBalances_order_independent:
  assumes "mset expenses' = mset expenses"
    and "\<forall>x \<in> set (amountsRead expenses). Number_isFinite (round2 x)"
    and "(\<Sum>x\<leftarrow>amountsRead expenses. \<bar>cents x\<bar>) \<le> 2 ^ 42"
  shows "calculateBalances expenses' memberIds = calculateBalances expenses memberIds"
  using assms by (rule order_independent)


text \<open>
  Claim C9 on two expenses of 100 and 30, in both orders.
\<close>

theorem calculateBalances_order_independent_witness:
  "mset [\<lparr>exp_amount = Fin 30, paidBy = Some \<lparr>user_id = ''U2'', name = ''B''\<rparr>, splitType = Custom,
           splits = [\<lparr>userId = ''U1'', amount = Fin 10\<rparr>, \<lparr>userId = ''U2'', amount = Fin 20\<rparr>]\<rparr>,
         \<lparr>exp_amount = Fin 100, paidBy = Some \<lparr>user_id = ''U1'', name = ''A''\<rparr>, splitType = Equal,
           splits = [\<lparr>userId = ''U1'', amount = Fin 50\<rparr>, \<lparr>userId = ''U2'', amount = Fin 50\<rparr>]\<rparr>]
   = mset [\<lparr>exp_amount = Fin 100, paidBy = Some \<lparr>user_id = ''U1'', name = ''A''\<rparr>, splitType = Equal,
           splits = [\<lparr>userId = ''U1'', amount = Fin 50\<rparr>, \<lparr>userId = ''U2'', amount = Fin 50\<rparr>]\<rparr>,
         \<lparr>exp_amount = Fin 30, paidBy = Some \<lparr>user_id = ''U2'', name = ''B''\<rparr>, splitType = Custom,
           splits = [\<lparr>userId = ''U1'', amount = Fin 10\<rparr>, \<lparr>userId = ''U2'', amount = Fin 20\<rparr>]\<rparr>]
   \<and> (\<Sum>x\<leftarrow>amountsRead
         [\<lparr>exp_amount = Fin 100, paidBy = Some \<lparr>user_id = ''U1'', name = ''A''\<rparr>, splitType = Equal,
           splits = [\<lparr>userId = ''U1'', amount = Fin 50\<rparr>, \<lparr>userId = ''U2'', amount = Fin 50\<rparr>]\<rparr>,
          \<lparr>exp_amount = Fin 30, paidBy = Some \<lparr>user_id = ''U2'', name = ''B''\<rparr>, splitType = Custom,
           splits = [\<lparr>userId = ''U1'', amount = Fin 10\<rparr>, \<lparr>userId = ''U2'', amount = Fin 20\<rparr>]\<rparr>].
        \<bar>cents x\<bar>) = 26000
   \<and> calculateBalances
        [\<lparr>exp_amount = Fin 30, paidBy = Some \<lparr>user_id = ''U2'', name = ''B''\<rparr>, splitType = Custom,
           splits = [\<lparr>userId = ''U1'', amount = Fin 10\<rparr>, \<lparr>userId = ''U2'', amount = Fin 20\<rparr>]\<rparr>,
         \<lparr>exp_amount = Fin 100, paidBy = Some \<lparr>user_id = ''U1'', name = ''A''\<rparr>, splitType = Equal,
           splits = [\<lparr>userId = ''U1'', amount = Fin 50\<rparr>, \<lparr>userId = ''U2'', amount = Fin 50\<rparr>]\<rparr>]
        [''U1'', ''U2'']
     = calculateBalances
        [\<lparr>exp_amount = Fin 100, paidBy = Some \<lparr>user_id = ''U1'', name = ''A''\<rparr>, splitType = Equal,
           splits = [\<lparr>userId = ''U1'', amount = Fin 50\<rparr>, \<lparr>userId = ''U2'', amount = Fin 50\<rparr>]\<rparr>,
         \<lparr>exp_amount = Fin 30, paidBy = Some \<lparr>user_id = ''U2'', name = ''B''\<rparr>, splitType = Custom,
           splits = [\<lparr>userId = ''U1'', amount = Fin 10\<rparr>, \<lparr>userId = ''U2'', amount = Fin 20\<rparr>]\<rparr>]
        [''U1'', ''U2'']"
  (is "mset ?es' = mset ?es \<and> ?vol = 26000 \<and> _")
proof -
  have h1: "mset ?es' = mset ?es" by simp
  have v: "?vol = 26000" by (simp add: amountsRead_def payerId_def)
  have h2: "\<forall>x \<in> set (amountsRead ?es). Number_isFinite (round2 x)"
    by (simp add: amountsRead_def payerId_def)
  have h3: "?vol \<le> 2 ^ 42" by (simp add: v)
  show ?thesis
    using h1 v calculateBalances_order_independent [OF h1 h2 h3] by simp
qed

lemma double_1e18: "double 1000000000000000000 = Fin 1000000000000000000"
  by (rule double_eqI [where e = 59 and m = 7812500000000000]) (simp_all add: power_int_minus)

lemma double_1e16: "double 10000000000000000 = Fin 10000000000000000"
  by (rule double_eqI [where e = 53 and m = 5000000000000000]) (simp_all add: power_int_minus)

lemma double_3_4: "double (3 / 4) = Fin (3 / 4)"
  by (rule double_eqI [where e = "- 1" and m = 6755399441055744]) (simp_all add: power_int_minus)

lemma double_1e16_3_4: "double (40000000000000003 / 4) = Fin 10000000000000000"
  by (rule double_eqI [where e = 53 and m = 5000000000000000]) (simp_all add: power_int_minus)

lemma double_3_2: "double (3 / 2) = Fin (3 / 2)"
  by (rule double_eqI [where e = 0 and m = 6755399441055744]) (simp_all add: power_int_minus)

lemma double_1e16_3_2: "double (20000000000000003 / 2) = Fin 10000000000000002"
  by (rule double_eqI [where e = 53 and m = 5000000000000001]) (simp_all add: power_int_minus)

lemma double_1e18_200: "double 1000000000000000200 = Fin 1000000000000000256"
  by (rule double_eqI [where e = 59 and m = 7812500000000002]) (simp_all add: power_int_minus)

lemma double_1e16_2: "double (250000000000000064 / 25) = Fin 10000000000000002"
  by (rule double_eqI [where e = 53 and m = 5000000000000001]) (simp_all add: power_int_minus)

text \<open>
  Claim C9 as stated fails beyond that range. A pays 10000000000000000 and twice 0.75,
  each owed by B: with the large expense first the balance of A is 10000000000000000,
  with the large expense last it is 10000000000000002.
\<close>

theorem calculateBalances_order_counterexample:
  "mset [\<lparr>exp_amount = Fin (3 / 4), paidBy = Some \<lparr>user_id = ''A'', name = ''A''\<rparr>, splitType = Custom,
           splits = [\<lparr>userId = ''B'', amount = Fin (3 / 4)\<rparr>]\<rparr>,
         \<lparr>exp_amount = Fin (3 / 4), paidBy = Some \<lparr>user_id = ''A'', name = ''A''\<rparr>, splitType = Custom,
           splits = [\<lparr>userId = ''B'', amount = Fin (3 / 4)\<rparr>]\<rparr>,
         \<lparr>exp_amount = Fin 10000000000000000, paidBy = Some \<lparr>user_id = ''A'', name = ''A''\<rparr>,
           splitType = Custom, splits = [\<lparr>userId = ''B'', amount = Fin 10000000000000000\<rparr>]\<rparr>]
   = mset [\<lparr>exp_amount = Fin 10000000000000000, paidBy = Some \<lparr>user_id = ''A'', name = ''A''\<rparr>,
           splitType = Custom, splits = [\<lparr>userId = ''B'', amount = Fin 10000000000000000\<rparr>]\<rparr>,
         \<lparr>exp_amount = Fin (3 / 4), paidBy = Some \<lparr>user_id = ''A'', name = ''A''\<rparr>, splitType = Custom,
           splits = [\<lparr>userId = ''B'', amount = Fin (3 / 4)\<rparr>]\<rparr>,
         \<lparr>exp_amount = Fin (3 / 4), paidBy = Some \<lparr>user_id = ''A'', name = ''A''\<rparr>, splitType = Custom,
           splits = [\<lparr>userId = ''B'', amount = Fin (3 / 4)\<rparr>]\<rparr>]
   \<and> calculateBalances
        [\<lparr>exp_amount = Fin 10000000000000000, paidBy = Some \<lparr>user_id = ''A'', name = ''A''\<rparr>,
           splitType = Custom, splits = [\<lparr>userId = ''B'', amount = Fin 10000000000000000\<rparr>]\<rparr>,
         \<lparr>exp_amount = Fin (3 / 4), paidBy = Some \<lparr>user_id = ''A'', name = ''A''\<rparr>, splitType = Custom,
           splits = [\<lparr>userId = ''B'', amount = Fin (3 / 4)\<rparr>]\<rparr>,
         \<lparr>exp_amount = Fin (3 / 4), paidBy = Some \<lparr>user_id = ''A'', name = ''A''\<rparr>, splitType = Custom,
           splits = [\<lparr>userId = ''B'', amount = Fin (3 / 4)\<rparr>]\<rparr>]
        [''A'', ''B''] ''A'' = Some (Fin 10000000000000000)
   \<and> calculateBalances
        [\<lparr>exp_amount = Fin (3 / 4), paidBy = Some \<lparr>user_id = ''A'', name = ''A''\<rparr>, splitType = Custom,
           splits = [\<lparr>userId = ''B'', amount = Fin (3 / 4)\<rparr>]\<rparr>,
         \<lparr>exp_amount = Fin (3 / 4), paidBy = Some \<lparr>user_id = ''A'', name = ''A''\<rparr>, splitType = Custom,
           splits = [\<lparr>userId = ''B'', amount = Fin (3 / 4)\<rparr>]\<rparr>,
         \<lparr>exp_amount = Fin 10000000000000000, paidBy = Some \<lparr>user_id = ''A'', name = ''A''\<rparr>,
           splitType = Custom, splits = [\<lparr>userId = ''B'', amount = Fin 10000000000000000\<rparr>]\<rparr>]
        [''A'', ''B''] ''A'' = Some (Fin 10000000000000002)
   \<and> calculateBalances
        [\<lparr>exp_amount = Fin (3 / 4), paidBy = Some \<lparr>user_id = ''A'', name = ''A''\<rparr>, splitType = Custom,
           splits = [\<lparr>userId = ''B'', amount = Fin (3 / 4)\<rparr>]\<rparr>,
         \<lparr>exp_amount = Fin (3 / 4), paidBy = Some \<lparr>user_id = ''A'', name = ''A''\<rparr>, splitType = Custom,
           splits = [\<lparr>userId = ''B'', amount = Fin (3 / 4)\<rparr>]\<rparr>,
         \<lparr>exp_amount = Fin 10000000000000000, paidBy = Some \<lparr>user_id = ''A'', name = ''A''\<rparr>,
           splitType = Custom, splits = [\<lparr>userId = ''B'', amount = Fin 10000000000000000\<rparr>]\<rparr>]
        [''A'', ''B'']
     \<noteq> calculateBalances
        [\<lparr>exp_amount = Fin 10000000000000000, paidBy = Some \<lparr>user_id = ''A'', name = ''A''\<rparr>,
           splitType = Custom, splits = [\<lparr>userId = ''B'', amount = Fin 10000000000000000\<rparr>]\<rparr>,
         \<lparr>exp_amount = Fin (3 / 4), paidBy = Some \<lparr>user_id = ''A'', name = ''A''\<rparr>, splitType = Custom,
           splits = [\<lparr>userId = ''B'', amount = Fin (3 / 4)\<rparr>]\<rparr>,
         \<lparr>exp_amount = Fin (3 / 4), paidBy = Some \<lparr>user_id = ''A'', name = ''A''\<rparr>, splitType = Custom,
           splits = [\<lparr>userId = ''B'', amount = Fin (3 / 4)\<rparr>]\<rparr>]
        [''A'', ''B'']"
  (is "mset ?es' = mset ?es \<and> _")
proof -
  let ?b = "calculateBalances ?es [''A'', ''B'']"
  let ?b' = "calculateBalances ?es' [''A'', ''B'']"
  have r: "round2 (Fin 10000000000000000) = Fin 10000000000000000"
      "round2 (Fin (3 / 4)) = Fin (3 / 4)" "round2 (Fin (3 / 2)) = Fin (3 / 2)"
      "round2 (Fin 10000000000000002) = Fin 10000000000000002"
    by (simp_all add: round2_def double_1e18 double_1e16 double_3_4 double_3_2
        double_1e18_200 double_1e16_2)
  have m: "mset ?es' = mset ?es" by simp
  have a: "?b ''A'' = Some (Fin 10000000000000000)"
    by (simp add: calculateBalances_def addExpense_def owe_def payerId_def setProp_def
        readProp_def coalesce0_def js_sub_def Let_def r double_1e16 double_1e16_3_4)
  have b: "?b' ''A'' = Some (Fin 10000000000000002)"
    by (simp add: calculateBalances_def addExpense_def owe_def payerId_def setProp_def
        readProp_def coalesce0_def js_sub_def Let_def r double_3_4 double_3_2 double_1e16_3_2)
  have "?b' ''A'' \<noteq> ?b ''A''" by (simp only: a b) simp
  then have ne: "?b' \<noteq> ?b" by (rule contrapos_nn) (erule arg_cong)
  show ?thesis by (rule conjI [OF m conjI [OF a conjI [OF b ne]]])
qed

subsection \<open>The sum of the balances\<close>

lemma net_Cons: "net (p # ps) k = (if fst p = k then signedCents p else 0) + net ps k"
  by (simp add: net_def)

lemma sum_net:
  assumes "finite D" "fst ` set ps \<subseteq> D"
  shows "(\<Sum>k\<in>D. net ps k) = (\<Sum>p\<leftarrow>ps. signedCents p)"
  using assms(2)
proof (induction ps)
  case Nil
  then show ?case by (simp add: net_def)
next
  case (Cons p ps)
  have "(\<Sum>k\<in>D. if fst p = k then signedCents p else 0) = signedCents p"
    using assms(1) Cons.prems by simp
  then show ?case using Cons by (simp add: net_Cons sum.distrib)
qed

lemma fst_postings: "fst ` set (postings e) = touched e"
proof (cases "payerId e")
  case None
  then show ?thesis by (simp add: postings_def touched_def)
next
  case (Some p)
  have "fst ` (\<lambda>s. (userId s, False, amount s)) ` set (splits e) = userId ` set (splits e)"
    by (simp add: image_image)
  then show ?thesis by (simp add: postings_def touched_def Some)
qed

lemma fst_concat_postings: "fst ` set (concat (map postings es)) = (\<Union>e \<in> set es. touched e)"
  by (induction es) (simp_all add: image_Un fst_postings)

lemma sum_signed_postings:
  "(\<Sum>p\<leftarrow>postings e. signedCents p) =
     (case payerId e of None \<Rightarrow> 0
      | Some p \<Rightarrow> cents (exp_amount e) - (\<Sum>s\<leftarrow>splits e. cents (amount s)))"
proof -
  have "(\<Sum>s\<leftarrow>ss. - cents (amount s)) = - (\<Sum>s\<leftarrow>ss. cents (amount s))" for ss :: "Split list"
    by (induction ss) simp_all
  then show ?thesis by (simp add: postings_def comp_def signedCents_def split: option.splits)
qed

lemma sum_signed_concat:
  "(\<Sum>p\<leftarrow>concat (map postings es). signedCents p) =
     (\<Sum>e\<leftarrow>paidExpenses es. cents (exp_amount e))
     - (\<Sum>e\<leftarrow>paidExpenses es. \<Sum>s\<leftarrow>splits e. cents (amount s))"
  by (induction es) (auto simp: paidExpenses_def sum_signed_postings split: option.splits)

lemma finite_touched: "finite (touched e)"
  by (simp add: touched_def split: option.splits)

lemma net_postingsAt: "netCents (postingsAt k es) = net (concat (map postings es)) k"
proof -
  have "netCents (map snd (filter (\<lambda>p. fst p = k) ps)) = net ps k" for ps
    by (induction ps) (auto simp: netCents_def net_def signedCents_def)
  then show ?thesis by (simp add: postingsAt_def)
qed

lemma postingsAt_empty:
  "postingsAt k es = [] \<longleftrightarrow> k \<notin> (\<Union>e \<in> set es. touched e)"
  unfolding fst_concat_postings [symmetric] postingsAt_def
  by (auto simp: filter_empty_conv image_iff)

lemma balances_sum:
  assumes "\<forall>x \<in> set (amountsRead es). Number_isFinite (round2 x)"
    and "(\<Sum>x\<leftarrow>amountsRead es. \<bar>cents x\<bar>) \<le> 2 ^ 42"
    and "\<forall>e \<in> set es. \<forall>k \<in> touched e. k \<notin> set Object_prototype"
  shows "(\<Sum>k\<in>dom (calculateBalances es ms). cents (orZero (calculateBalances es ms k))) =
     (\<Sum>e\<leftarrow>paidExpenses es. cents (exp_amount e))
     - (\<Sum>e\<leftarrow>paidExpenses es. \<Sum>s\<leftarrow>splits e. cents (amount s))"
proof -
  let ?ps = "concat (map postings es)"
  let ?T = "\<Union>e \<in> set es. touched e"
  let ?D = "dom (calculateBalances es ms)"
  have T: "k \<notin> set Object_prototype" if "k \<in> ?T" for k using that assms(3) by auto
  have proto: "''__proto__'' \<notin> ?T" using T proto_inherited by blast
  have "cents (orZero (calculateBalances es ms k)) = net ?ps k" if "k \<in> ?D" for k
  proof -
    from that have k: "k \<noteq> ''__proto__''" "k \<in> set ms \<or> k \<in> ?T"
      by (auto simp: dom_calculateBalances)
    then have i: "k \<in> set ms \<or> k \<notin> set Object_prototype" using T by blast
    have e: "k \<notin> set ms \<Longrightarrow> postingsAt k es \<noteq> []" using k(2) by (simp add: postingsAt_empty)
    have "calculateBalances es ms k = Some (fromCents (netCents (postingsAt k es)))"
      using k(1) i e by (auto simp: calculateBalances_value(1) [OF assms(1,2)])
    then show ?thesis
      using calculateBalances_value(2) [OF assms(1,2) k(1) i]
      by (simp add: orZero_def cents_fromCents net_postingsAt)
  qed
  then have "(\<Sum>k\<in>?D. cents (orZero (calculateBalances es ms k))) = (\<Sum>k\<in>?D. net ?ps k)"
    by simp
  also have "\<dots> = (\<Sum>p\<leftarrow>?ps. signedCents p)"
  proof (rule sum_net)
    show "finite ?D" by (simp add: dom_calculateBalances finite_touched)
    show "fst ` set ?ps \<subseteq> ?D" unfolding fst_concat_postings dom_calculateBalances
      using proto by blast
  qed
  finally show ?thesis by (simp add: sum_signed_concat)
qed

text \<open>
  Claim C3, as the code has it. When no id that an expense touches is the name of a
  property every object inherits, the amounts that are read round to finite values, and
  their absolute values in cents sum to at most \<open>2 ^ 42\<close>, the balances in cents sum to
  the cents of the amounts of the expenses with a resolvable payer, each amount rounded on
  its own, minus the cents of their split amounts; the sum is 0 when the split cents of
  every such expense add up to the cents of its amount.
\<close>

theorem balances_sum_in_cents:
  assumes "\<forall>e \<in> set expenses. \<forall>k \<in> touched e. k \<notin> set Object_prototype"
    and "\<forall>x \<in> set (amountsRead expenses). Number_isFinite (round2 x)"
    and "(\<Sum>x\<leftarrow>amountsRead expenses. \<bar>cents x\<bar>) \<le> 2 ^ 42"
  shows "(\<Sum>k\<in>dom (calculateBalances expenses memberIds).
            cents (orZero (calculateBalances expenses memberIds k))) =
         (\<Sum>e\<leftarrow>paidExpenses expenses. cents (exp_amount e))
         - (\<Sum>e\<leftarrow>paidExpenses expenses. \<Sum>s\<leftarrow>splits e. cents (amount s))
       \<and> ((\<forall>e \<in> set (paidExpenses expenses).
              cents (exp_amount e) = (\<Sum>s\<leftarrow>splits e. cents (amount s))) \<longrightarrow>
           (\<Sum>k\<in>dom (calculateBalances expenses memberIds).
              cents (orZero (calculateBalances expenses memberIds k))) = 0)"
proof -
  have "(\<Sum>e\<leftarrow>xs. cents (exp_amount e)) = (\<Sum>e\<leftarrow>xs. \<Sum>s\<leftarrow>splits e. cents (amount s))"
    if "\<forall>e \<in> set xs. cents (exp_amount e) = (\<Sum>s\<leftarrow>splits e. cents (amount s))"
    for xs :: "Expense list"
    using that by (induction xs) simp_all
  then show ?thesis using balances_sum [OF assms(2,3,1)] by auto
qed

text \<open>
  Claim C3 on the expense of 100 split 50 and 50.
\<close>

theorem balances_sum_in_cents_witness:
  "''U1'' \<notin> set Object_prototype \<and> ''U2'' \<notin> set Object_prototype
   \<and> touched \<lparr>exp_amount = Fin 100, paidBy = Some \<lparr>user_id = ''U1'', name = ''A''\<rparr>, splitType = Equal,
           splits = [\<lparr>userId = ''U1'', amount = Fin 50\<rparr>, \<lparr>userId = ''U2'', amount = Fin 50\<rparr>]\<rparr>
       = {''U1'', ''U2''}
   \<and> (\<Sum>x\<leftarrow>amountsRead
         [\<lparr>exp_amount = Fin 100, paidBy = Some \<lparr>user_id = ''U1'', name = ''A''\<rparr>, splitType = Equal,
           splits = [\<lparr>userId = ''U1'', amount = Fin 50\<rparr>, \<lparr>userId = ''U2'', amount = Fin 50\<rparr>]\<rparr>].
        \<bar>cents x\<bar>) = 20000
   \<and> (\<Sum>k\<in>dom (calculateBalances
         [\<lparr>exp_amount = Fin 100, paidBy = Some \<lparr>user_id = ''U1'', name = ''A''\<rparr>, splitType = Equal,
           splits = [\<lparr>userId = ''U1'', amount = Fin 50\<rparr>, \<lparr>userId = ''U2'', amount = Fin 50\<rparr>]\<rparr>]
         [''U1'', ''U2'']).
        cents (orZero (calculateBalances
         [\<lparr>exp_amount = Fin 100, paidBy = Some \<lparr>user_id = ''U1'', name = ''A''\<rparr>, splitType = Equal,
           splits = [\<lparr>userId = ''U1'', amount = Fin 50\<rparr>, \<lparr>userId = ''U2'', amount = Fin 50\<rparr>]\<rparr>]
         [''U1'', ''U2''] k))) = 0"
  (is "?i1 \<and> ?i2 \<and> ?t \<and> ?vol = 20000 \<and> ?sum = 0")
proof -
  let ?es = "[\<lparr>exp_amount = Fin 100, paidBy = Some \<lparr>user_id = ''U1'', name = ''A''\<rparr>, splitType = Equal,
           splits = [\<lparr>userId = ''U1'', amount = Fin 50\<rparr>, \<lparr>userId = ''U2'', amount = Fin 50\<rparr>]\<rparr>]"
  have i: ?i1 ?i2 by (simp_all add: Object_prototype_def)
  have t: ?t by (auto simp: touched_def payerId_def)
  have v: "?vol = 20000" by (simp add: amountsRead_def payerId_def)
  have h1: "\<forall>e \<in> set ?es. \<forall>k \<in> touched e. k \<notin> set Object_prototype"
    using i by (simp add: t)
  have h2: "\<forall>x \<in> set (amountsRead ?es). Number_isFinite (round2 x)"
    by (simp add: amountsRead_def payerId_def)
  have h3: "?vol \<le> 2 ^ 42" by (simp add: v)
  have "?sum = 0"
    using balances_sum_in_cents [OF h1 h2 h3, of "[''U1'', ''U2'']"]
    by (simp add: paidExpenses_def payerId_def)
  then show ?thesis using i t v by (intro conjI)
qed

lemma double_1_4: "double (1 / 4) = Fin (1 / 4)"
  by (rule double_eqI [where e = "- 2" and m = 4503599627370496]) (simp_all add: power_int_minus)

lemma double_1_8: "double (1 / 8) = Fin (1 / 8)"
  by (rule double_eqI [where e = "- 3" and m = 4503599627370496]) (simp_all add: power_int_minus)

lemma double_25_2: "double (25 / 2) = Fin (25 / 2)"
  by (rule double_eqI [where e = 3 and m = 7036874417766400]) (simp_all add: power_int_minus)

lemma double_13_100: "double (13 / 100) = Fin (1170935903116329 / 9007199254740992)"
  by (rule double_eqI [where e = "- 3" and m = 4683743612465316]) (simp_all add: power_int_minus)

lemma double_quarter_less_013: "double (1080863910568919 / 9007199254740992) = Fin (1080863910568919 / 9007199254740992)"
  by (rule double_eqI [where e = "- 4" and m = 8646911284551352]) (simp_all add: power_int_minus)

lemma double_012_scaled: "double (27021597764222975 / 2251799813685248) = Fin 12"
  by (rule double_eqI [where e = 3 and m = 6755399441055744]) (simp_all add: power_int_minus)

lemma double_3_25: "double (3 / 25) = Fin (1080863910568919 / 9007199254740992)"
  by (rule double_eqI [where e = "- 4" and m = 8646911284551352]) (simp_all add: power_int_minus)

lemma double_neg_013: "double (- (1170935903116329 / 9007199254740992)) = Fin (- (1170935903116329 / 9007199254740992))"
  by (rule double_eqI_neg [where p = "1170935903116329 / 9007199254740992"], simp,
      rule double_eqI [where e = "- 3" and m = 4683743612465316])
     (simp_all add: power_int_minus)

lemma double_neg_013_scaled: "double (- (29273397577908225 / 2251799813685248)) = Fin (- 13)"
  by (rule double_eqI_neg [where p = "29273397577908225 / 2251799813685248"], simp,
      rule double_eqI [where e = 3 and m = 7318349394477056])
     (simp_all add: power_int_minus)

lemma double_012_minus_013: "double (- (45035996273705 / 4503599627370496)) = Fin (- (45035996273705 / 4503599627370496))"
  by (rule double_eqI_neg [where p = "45035996273705 / 4503599627370496"], simp,
      rule double_eqI [where e = "- 7" and m = 5764607523034240])
     (simp_all add: power_int_minus)

text \<open>
  Claim C3 as stated fails on one expense of 0.25 paid by A and split 0.125 and 0.125
  between A and B. The splits sum to the amount, and the claimed total is
  \<open>round2 0.25 - round2 0.25 = 0\<close>; but each split is rounded to 0.13 on its own, the
  balances are 0.12 and -0.13, and their sum is not 0.
\<close>

theorem balances_sum_counterexample:
  "foldl num_add (Fin 0) (map amount [\<lparr>userId = ''A'', amount = Fin (1 / 8)\<rparr>,
                                      \<lparr>userId = ''B'', amount = Fin (1 / 8)\<rparr>]) = Fin (1 / 4)
   \<and> dom (calculateBalances
        [\<lparr>exp_amount = Fin (1 / 4), paidBy = Some \<lparr>user_id = ''A'', name = ''A''\<rparr>,
          splitType = Custom,
          splits = [\<lparr>userId = ''A'', amount = Fin (1 / 8)\<rparr>, \<lparr>userId = ''B'', amount = Fin (1 / 8)\<rparr>]\<rparr>]
        [''A'', ''B'']) = {''A'', ''B''}
   \<and> calculateBalances
        [\<lparr>exp_amount = Fin (1 / 4), paidBy = Some \<lparr>user_id = ''A'', name = ''A''\<rparr>,
          splitType = Custom,
          splits = [\<lparr>userId = ''A'', amount = Fin (1 / 8)\<rparr>, \<lparr>userId = ''B'', amount = Fin (1 / 8)\<rparr>]\<rparr>]
        [''A'', ''B''] ''A'' = Some (double (12 / 100))
   \<and> calculateBalances
        [\<lparr>exp_amount = Fin (1 / 4), paidBy = Some \<lparr>user_id = ''A'', name = ''A''\<rparr>,
          splitType = Custom,
          splits = [\<lparr>userId = ''A'', amount = Fin (1 / 8)\<rparr>, \<lparr>userId = ''B'', amount = Fin (1 / 8)\<rparr>]\<rparr>]
        [''A'', ''B''] ''B'' = Some (double (- (13 / 100)))
   \<and> valuesSum (calculateBalances
        [\<lparr>exp_amount = Fin (1 / 4), paidBy = Some \<lparr>user_id = ''A'', name = ''A''\<rparr>,
          splitType = Custom,
          splits = [\<lparr>userId = ''A'', amount = Fin (1 / 8)\<rparr>, \<lparr>userId = ''B'', amount = Fin (1 / 8)\<rparr>]\<rparr>]
        [''A'', ''B'']) [''A'', ''B''] = Fin (- (45035996273705 / 4503599627370496))
   \<and> claimedBalanceSum
        [\<lparr>exp_amount = Fin (1 / 4), paidBy = Some \<lparr>user_id = ''A'', name = ''A''\<rparr>,
          splitType = Custom,
          splits = [\<lparr>userId = ''A'', amount = Fin (1 / 8)\<rparr>, \<lparr>userId = ''B'', amount = Fin (1 / 8)\<rparr>]\<rparr>]
       = Fin 0
   \<and> valuesSum (calculateBalances
        [\<lparr>exp_amount = Fin (1 / 4), paidBy = Some \<lparr>user_id = ''A'', name = ''A''\<rparr>,
          splitType = Custom,
          splits = [\<lparr>userId = ''A'', amount = Fin (1 / 8)\<rparr>, \<lparr>userId = ''B'', amount = Fin (1 / 8)\<rparr>]\<rparr>]
        [''A'', ''B'']) [''A'', ''B'']
     \<noteq> claimedBalanceSum
        [\<lparr>exp_amount = Fin (1 / 4), paidBy = Some \<lparr>user_id = ''A'', name = ''A''\<rparr>,
          splitType = Custom,
          splits = [\<lparr>userId = ''A'', amount = Fin (1 / 8)\<rparr>, \<lparr>userId = ''B'', amount = Fin (1 / 8)\<rparr>]\<rparr>]"
  (is "?s \<and> ?d \<and> ?a \<and> ?b \<and> ?v \<and> ?c \<and> ?n")
proof -
  have r: "round2 (Fin (1 / 4)) = Fin (1 / 4)"
      "round2 (Fin (1 / 8)) = Fin (1170935903116329 / 9007199254740992)"
      "round2 (Fin (1080863910568919 / 9007199254740992)) = Fin (1080863910568919 / 9007199254740992)"
      "round2 (Fin (- (1170935903116329 / 9007199254740992))) = Fin (- (1170935903116329 / 9007199254740992))"
    by (simp_all add: round2_def double_1_4 double_25_2 double_13_100 double_012_scaled double_3_25
        double_neg_013_scaled double_013)
  have s: ?s by (simp add: double_1_8 double_1_4)
  have d: ?d by (auto simp: dom_calculateBalances touched_def payerId_def)
  have a: ?a
    by (simp add: calculateBalances_def addExpense_def owe_def payerId_def setProp_def
        readProp_def coalesce0_def js_sub_def Let_def r double_1_4 double_quarter_less_013
        double_3_25)
  have b: ?b
    by (simp add: calculateBalances_def addExpense_def owe_def payerId_def setProp_def
        readProp_def coalesce0_def js_sub_def Let_def r double_1_4 double_neg_013 double_013)
  have v: ?v
    unfolding valuesSum_def
    by (simp add: a b orZero_def double_3_25 double_013 double_quarter_less_013
        double_012_minus_013)
  have c: ?c by (simp add: claimedBalanceSum_def r double_1_8 double_1_4)
  have n: ?n by (simp only: v c) simp
  show ?thesis
    by (rule conjI [OF s conjI [OF d conjI [OF a conjI [OF b conjI [OF v conjI [OF c n]]]]]])
qed

end
